theory Spec2Isabelle
  imports Main "HOL-Library.Sublist"
begin

section \<open>Python strings\<close>

text \<open>
  A Python \<open>str\<close> is a sequence of Unicode code points, and \<open>len\<close>, slicing,
  \<open>strip\<close> and the regular expression engine all work on code points. A string is
  therefore modelled as a list of code point numbers. Literals of the source are written
  with \<open>ascii\<close>, which reads an Isabelle string of ASCII characters.
\<close>

type_synonym pystr = "nat list"

definition ascii :: "string \<Rightarrow> pystr" where
  "ascii s = map of_char s"

definition NL :: nat where
  "NL = 10"

text \<open>
  \<open>str.isspace\<close> on one code point. \<open>str.strip()\<close> without argument and the class
  \<open>\s\<close> of a \<open>str\<close> pattern both use this test: tab, line feed, vertical tab, form
  feed, carriage return, the separators 28 to 31, the space, and the Unicode spaces.
\<close>

definition isspace :: "nat \<Rightarrow> bool" where
  "isspace c =
     ((9 \<le> c \<and> c \<le> 13) \<or> (28 \<le> c \<and> c \<le> 32) \<or> c = 133 \<or> c = 160 \<or> c = 5760
      \<or> (8192 \<le> c \<and> c \<le> 8202) \<or> c = 8232 \<or> c = 8233 \<or> c = 8239 \<or> c = 8287
      \<or> c = 12288)"

text \<open>\<open>s.strip()\<close>: leading and trailing whitespace removed.\<close>

definition strip :: "pystr \<Rightarrow> pystr" where
  "strip s = rev (dropWhile isspace (rev (dropWhile isspace s)))"

text \<open>\<open>sep.join(xs)\<close>.\<close>

fun str_join :: "pystr \<Rightarrow> pystr list \<Rightarrow> pystr" where
  "str_join sep [] = []"
| "str_join sep [x] = x"
| "str_join sep (x # y # ys) = x @ sep @ str_join sep (y # ys)"

text \<open>\<open>s.startswith(p)\<close>.\<close>

definition startswith :: "pystr \<Rightarrow> pystr \<Rightarrow> bool" where
  "startswith s p = (take (length p) s = p)"

text \<open>Truth value of an optional string: \<open>None\<close> and \<open>""\<close> are false.\<close>

fun truthy :: "pystr option \<Rightarrow> bool" where
  "truthy None = False"
| "truthy (Some s) = (s \<noteq> [])"

text \<open>\<open>str(n)\<close> for a length: the decimal digits.\<close>

function str_of_nat :: "nat \<Rightarrow> pystr" where
  "str_of_nat n = (if n < 10 then [48 + n] else str_of_nat (n div 10) @ [48 + n mod 10])"
  by pat_completeness auto
termination
  by (relation "measure id") auto

declare str_of_nat.simps [simp del]

section \<open>The substitution \<open>re.sub(r'\n\s*\n', '\n\n', text)\<close>\<close>

text \<open>
  \<open>backtrack cs k\<close> is the regular expression engine after the first \<open>\n\<close> of the
  pattern has matched and \<open>\s*\<close> has taken \<open>k\<close> characters of \<open>cs\<close>: the closing
  \<open>\n\<close> is tried at index \<open>k\<close>, and on failure \<open>\s*\<close> gives one character back.
  The result is the number of characters that \<open>\s*\<close> keeps.
\<close>

fun backtrack :: "pystr \<Rightarrow> nat \<Rightarrow> nat option" where
  "backtrack cs 0 = (if 0 < length cs \<and> cs ! 0 = NL then Some 0 else None)"
| "backtrack cs (Suc k) =
     (if Suc k < length cs \<and> cs ! Suc k = NL then Some (Suc k) else backtrack cs k)"

text \<open>
  \<open>match_blank s\<close> is the length of the match of \<open>\n\s*\n\<close> at the start of \<open>s\<close>,
  if there is one: \<open>\s*\<close> is greedy, so it first takes the whole run of whitespace.
\<close>

fun match_blank :: "pystr \<Rightarrow> nat option" where
  "match_blank [] = None"
| "match_blank (c # cs) =
     (if c = NL then
        (case backtrack cs (length (takeWhile isspace cs)) of
           None \<Rightarrow> None
         | Some k \<Rightarrow> Some (k + 2))
      else None)"

lemma backtrack_bound: "backtrack cs k = Some j \<Longrightarrow> j < length cs"
  by (induction k) (auto split: if_splits)

lemma match_blank_bound: "match_blank s = Some n \<Longrightarrow> 2 \<le> n \<and> n \<le> length s"
  by (cases s) (auto split: if_splits option.splits dest: backtrack_bound)

text \<open>
  \<open>re.sub\<close> scans from the left; the matches do not overlap, and a character that
  starts no match is copied.
\<close>

function sub_blank :: "pystr \<Rightarrow> pystr" where
  "sub_blank [] = []"
| "sub_blank (c # cs) =
     (case match_blank (c # cs) of
        Some n \<Rightarrow> [NL, NL] @ sub_blank (drop n (c # cs))
      | None \<Rightarrow> c # sub_blank cs)"
  by pat_completeness auto
termination
proof (relation "measure length")
  fix c cs n
  assume "match_blank (c # cs) = Some n"
  then have "2 \<le> n" by (rule match_blank_bound [THEN conjunct1])
  then show "(drop n (c # cs), c # cs) \<in> measure length" by simp
qed auto

section \<open>The parsed document\<close>

text \<open>
  The tree that \<open>BeautifulSoup(html_content, parser)\<close> builds: an element with its
  name, its attributes and its children, a text node (\<open>NavigableString\<close>), or a
  string of another class (comment, doctype, declaration), which \<open>get_text\<close> skips.
  The document object is the list of its top-level nodes.
\<close>

datatype node =
    Tag pystr "(pystr \<times> pystr) list" "node list"
  | NavigableString pystr
  | Comment pystr

type_synonym soup = "node list"

text \<open>\<open>.descendants\<close>: every node below, in document order.\<close>

fun descendants :: "node \<Rightarrow> node list" where
  "descendants (Tag name attrs cs) = concat (map (\<lambda>c. c # descendants c) cs)"
| "descendants (NavigableString s) = []"
| "descendants (Comment s) = []"

definition soup_descendants :: "soup \<Rightarrow> node list" where
  "soup_descendants sp = concat (map (\<lambda>c. c # descendants c) sp)"

fun tag_named :: "pystr list \<Rightarrow> node \<Rightarrow> bool" where
  "tag_named names (Tag name attrs cs) = (name \<in> set names)"
| "tag_named names (NavigableString s) = False"
| "tag_named names (Comment s) = False"

text \<open>
  \<open>for tag in soup.find_all(names): tag.decompose()\<close>: every element with one of the
  names leaves the tree, with everything below it.
\<close>

fun decompose_in :: "pystr list \<Rightarrow> node \<Rightarrow> node" where
  "decompose_in names (Tag name attrs cs) =
     Tag name attrs (map (decompose_in names) (filter (\<lambda>c. \<not> tag_named names c) cs))"
| "decompose_in names (NavigableString s) = NavigableString s"
| "decompose_in names (Comment s) = Comment s"

definition decompose_all :: "pystr list \<Rightarrow> soup \<Rightarrow> soup" where
  "decompose_all names sp = map (decompose_in names) (filter (\<lambda>c. \<not> tag_named names c) sp)"

text \<open>\<open>soup.find(name)\<close>: the first element of that name in document order.\<close>

definition soup_find :: "pystr \<Rightarrow> soup \<Rightarrow> node option" where
  "soup_find name sp = List.find (tag_named [name]) (soup_descendants sp)"

text \<open>\<open>soup.find('div', role='main')\<close>.\<close>

fun div_role_main :: "node \<Rightarrow> bool" where
  "div_role_main (Tag name attrs cs) =
     (name = ascii ''div'' \<and> map_of attrs (ascii ''role'') = Some (ascii ''main''))"
| "div_role_main (NavigableString s) = False"
| "div_role_main (Comment s) = False"

definition soup_find_div_role_main :: "soup \<Rightarrow> node option" where
  "soup_find_div_role_main sp = List.find div_role_main (soup_descendants sp)"

text \<open>
  \<open>get_text(separator='\n', strip=True)\<close> on a list of descendants: the text nodes
  in document order, each stripped, the empty ones dropped, joined by the separator.
\<close>

fun node_string :: "node \<Rightarrow> pystr option" where
  "node_string (NavigableString s) = Some s"
| "node_string (Tag name attrs cs) = None"
| "node_string (Comment s) = None"

definition get_text :: "node list \<Rightarrow> pystr" where
  "get_text ds =
     str_join [NL] (filter (\<lambda>s. s \<noteq> []) (map strip (List.map_filter node_string ds)))"

section \<open>The environment\<close>

text \<open>
  The libraries and the outside world the script calls are parameters of the model:
  what a call returns is the environment's choice, an exception is the left branch of
  a sum.
\<close>

datatype exn = Exception pystr

text \<open>The result dictionary of the orchestrator; \<open>r_error = None\<close> is a missing key.\<close>

record result =
  r_url :: pystr
  r_content :: "pystr option"
  r_method :: "pystr option"
  r_beautified :: bool
  r_error :: "pystr option"

record env =
  \<comment> \<open>\<open>BeautifulSoup(html_content, parser)\<close>; \<open>None\<close> when the import of bs4 failed\<close>
  bs4 :: "(pystr \<Rightarrow> exn + soup) option"
  \<comment> \<open>\<open>client.get(url, headers)\<close>, \<open>raise_for_status()\<close>, \<open>response.text\<close>\<close>
  httpx_get :: "pystr \<Rightarrow> exn + pystr"
  \<comment> \<open>\<open>scraper.get(url, timeout=20)\<close>, \<open>raise_for_status()\<close>, \<open>response.text\<close>\<close>
  cloudscraper_get :: "pystr \<Rightarrow> exn + pystr"
  \<comment> \<open>whether \<open>from playwright.sync_api import sync_playwright\<close> succeeds\<close>
  import_playwright :: bool
  \<comment> \<open>launch, new context, new page, \<open>goto\<close>, the wait, \<open>page.content()\<close>, the closes\<close>
  playwright_page :: "pystr \<Rightarrow> exn + pystr"
  \<comment> \<open>whether the imports of selenium and of webdriver-manager succeed\<close>
  import_selenium :: bool
  import_webdriver_manager :: bool
  \<comment> \<open>\<open>GeckoDriverManager().install()\<close> and \<open>ChromeDriverManager().install()\<close>\<close>
  gecko_install :: "exn + pystr"
  chromedriver_install :: "exn + pystr"
  \<comment> \<open>service with the executable path, driver with the option arguments, \<open>get(url)\<close>,
     the sleep, \<open>page_source\<close>, \<open>quit()\<close>\<close>
  firefox_page :: "pystr option \<Rightarrow> pystr list \<Rightarrow> pystr \<Rightarrow> exn + pystr"
  chrome_page :: "pystr option \<Rightarrow> pystr list \<Rightarrow> pystr \<Rightarrow> exn + pystr"
  \<comment> \<open>\<open>Path(p).exists()\<close>: \<open>False\<close> for a path that is not there, an
     \<open>OSError\<close> for a path that cannot be examined (a name that is too long, a
     directory that may not be searched)\<close>
  path_exists :: "pystr \<Rightarrow> exn + bool"
  \<comment> \<open>\<open>json.dumps(result, indent=2, ensure_ascii=False)\<close>\<close>
  json_dumps :: "result \<Rightarrow> pystr"
  \<comment> \<open>creating the parent directories, opening the file and writing the text\<close>
  write_file :: "pystr \<Rightarrow> pystr \<Rightarrow> exn + unit"

section \<open>\<open>clean_html\<close>\<close>

definition tags_to_remove :: "pystr list" where
  "tags_to_remove = map ascii
     [''script'', ''style'', ''nav'', ''footer'', ''aside'', ''header'', ''form'', ''iframe'',
      ''button'', ''input'', ''textarea'', ''select'', ''option'', ''noscript'', ''link'',
      ''meta'']"

text \<open>
  \<open>soup.find('main') or soup.find('article') or soup.find('div', role='main') or
  soup.find('body')\<close>: an element is always true, so the first search that finds one
  decides.
\<close>

definition find_main_content :: "soup \<Rightarrow> node option" where
  "find_main_content sp =
     (case soup_find (ascii ''main'') sp of
        Some t \<Rightarrow> Some t
      | None \<Rightarrow>
          (case soup_find (ascii ''article'') sp of
             Some t \<Rightarrow> Some t
           | None \<Rightarrow>
               (case soup_find_div_role_main sp of
                  Some t \<Rightarrow> Some t
                | None \<Rightarrow> soup_find (ascii ''body'') sp)))"

text \<open>
  The text the tree gives before the blank lines are consolidated: the noise elements
  are removed, then \<open>get_text\<close> runs on the main content, or on the whole document
  when there is none.
\<close>

definition text_content :: "soup \<Rightarrow> pystr" where
  "text_content sp =
     (let sp' = decompose_all tags_to_remove sp in
      case find_main_content sp' of
        Some main_content \<Rightarrow> get_text (descendants main_content)
      | None \<Rightarrow> get_text (soup_descendants sp'))"

definition cleaned_text :: "pystr \<Rightarrow> pystr" where
  "cleaned_text t = strip (sub_blank t)"

definition clean_html :: "env \<Rightarrow> pystr \<Rightarrow> pystr" where
  "clean_html e html_content =
     (if html_content = [] then []
      else case bs4 e of
        None \<Rightarrow> html_content
      | Some parser \<Rightarrow>
          (case parser html_content of
             Inl ex \<Rightarrow> html_content
           | Inr sp \<Rightarrow> cleaned_text (text_content sp)))"

section \<open>The scraping methods\<close>

text \<open>
  A method returns the pair \<open>(content, method_used)\<close>; \<open>None\<close> is Python's \<open>None\<close>.
\<close>

type_synonym outcome = "pystr option \<times> pystr option"

text \<open>
  The module's globals \<open>playwright\<close>, \<open>selenium\<close> and \<open>webdriver_manager\<close>:
  \<open>None\<close> before the first check, \<open>False\<close> after a failed import, the imported
  components otherwise. The dictionary of driver managers has both keys or none.
\<close>

datatype lazy_import = Unchecked | Failed | Loaded

datatype manager_dict = ManagersUnchecked | ManagersFailed | Managers bool

record globals =
  g_playwright :: lazy_import
  g_selenium :: lazy_import
  g_webdriver_manager :: manager_dict

definition fast_scrape :: "env \<Rightarrow> pystr \<Rightarrow> bool \<Rightarrow> outcome" where
  "fast_scrape e url beautify =
     (let (content, method_used) =
        (case httpx_get e url of
           Inr txt \<Rightarrow> (Some txt, Some (ascii ''httpx''))
         | Inl ex \<Rightarrow>
             (case cloudscraper_get e url of
                Inr txt \<Rightarrow> (Some txt, Some (ascii ''cloudscraper''))
              | Inl e_cs \<Rightarrow> (None, None)))
      in case content of
           None \<Rightarrow> (None, None)
         | Some c \<Rightarrow>
             if c \<noteq> [] then (Some (if beautify then clean_html e c else c), method_used)
             else (None, None))"

text \<open>
  \<open>profile_path and Path(profile_path).exists()\<close>, the test of the three browser
  methods. It stands inside the \<open>try\<close> of each method, and \<open>exists()\<close> is only
  called for a path that is neither \<open>None\<close> nor empty.
\<close>

definition profile_found :: "env \<Rightarrow> pystr option \<Rightarrow> exn + bool" where
  "profile_found e profile_path =
     (case profile_path of
        None \<Rightarrow> Inr False
      | Some p \<Rightarrow> if p = [] then Inr False else path_exists e p)"

text \<open>
  The \<open>try\<close> block of \<open>playwright_scrape\<close>. A profile that is found only adds
  two lines to the log, the launch and context options are the same with and without
  it; an exception of the test ends the method like any other. Starting Playwright,
  which comes before the test, and the browser session after it are one call of the
  environment: a failure of either returns the same pair.
\<close>

definition playwright_try :: "env \<Rightarrow> pystr \<Rightarrow> pystr option \<Rightarrow> bool \<Rightarrow> outcome" where
  "playwright_try e url profile_path beautify =
     (case profile_found e profile_path of
        Inl ex \<Rightarrow> (None, None)
      | Inr found \<Rightarrow>
          (case playwright_page e url of
             Inr content_html \<Rightarrow>
               (Some (if beautify then clean_html e content_html else content_html),
                Some (ascii ''playwright''))
           | Inl ex \<Rightarrow> (None, None)))"

definition playwright_scrape ::
  "env \<Rightarrow> pystr \<Rightarrow> pystr option \<Rightarrow> bool \<Rightarrow> globals \<Rightarrow> outcome \<times> globals" where
  "playwright_scrape e url profile_path beautify g =
     (case g_playwright g of
        Failed \<Rightarrow> ((None, None), g)
      | Unchecked \<Rightarrow>
          if import_playwright e then
            (playwright_try e url profile_path beautify, g\<lparr>g_playwright := Loaded\<rparr>)
          else ((None, None), g\<lparr>g_playwright := Failed\<rparr>)
      | Loaded \<Rightarrow> (playwright_try e url profile_path beautify, g))"

definition ensure_selenium_dependencies :: "env \<Rightarrow> globals \<Rightarrow> bool \<times> globals" where
  "ensure_selenium_dependencies e g =
     (if g_selenium g \<noteq> Unchecked then (g_selenium g \<noteq> Failed, g)
      else if import_selenium e then
        (True, g\<lparr>g_selenium := Loaded,
                 g_webdriver_manager := Managers (import_webdriver_manager e)\<rparr>)
      else (False, g\<lparr>g_selenium := Failed, g_webdriver_manager := ManagersFailed\<rparr>))"

text \<open>
  \<open>"firefox" in webdriver_manager\<close> and the call of the manager. The test raises a
  \<open>TypeError\<close> when the global is not a dictionary; the exception of a failing
  \<open>install()\<close> is caught, and the driver is then looked for in the path.
\<close>

definition service_args :: "manager_dict \<Rightarrow> exn + pystr \<Rightarrow> exn + pystr option" where
  "service_args wm install =
     (case wm of
        Managers has_keys \<Rightarrow>
          if has_keys then
            (case install of Inr path \<Rightarrow> Inr (Some path) | Inl wd_e \<Rightarrow> Inr None)
          else Inr None
      | ManagersUnchecked \<Rightarrow> Inl (Exception (ascii ''TypeError''))
      | ManagersFailed \<Rightarrow> Inl (Exception (ascii ''TypeError'')))"

definition firefox_options :: "env \<Rightarrow> pystr option \<Rightarrow> exn + pystr list" where
  "firefox_options e profile_path =
     (case profile_found e profile_path of
        Inl ex \<Rightarrow> Inl ex
      | Inr found \<Rightarrow>
          Inr ([ascii ''--headless'', ascii ''--window-size=1920,1080'']
               @ (if found then
                    (case profile_path of None \<Rightarrow> [] | Some p \<Rightarrow> [ascii ''-profile'', p])
                  else [])))"

definition firefox_scrape ::
  "env \<Rightarrow> pystr \<Rightarrow> pystr option \<Rightarrow> bool \<Rightarrow> globals \<Rightarrow> outcome \<times> globals" where
  "firefox_scrape e url profile_path beautify g =
     (let (available, g') = ensure_selenium_dependencies e g in
      if \<not> available then ((None, None), g')
      else
        (case firefox_options e profile_path of
           Inl ex \<Rightarrow> ((None, None), g')
         | Inr options \<Rightarrow>
             (case service_args (g_webdriver_manager g') (gecko_install e) of
                Inl ex \<Rightarrow> ((None, None), g')
              | Inr executable_path \<Rightarrow>
                  (case firefox_page e executable_path options url of
                     Inl ex \<Rightarrow> ((None, None), g')
                   | Inr content_html \<Rightarrow>
                       ((Some (if beautify then clean_html e content_html else content_html),
                         Some (ascii ''firefox'')), g')))))"

definition chrome_options :: "env \<Rightarrow> pystr option \<Rightarrow> exn + pystr list" where
  "chrome_options e profile_path =
     (case profile_found e profile_path of
        Inl ex \<Rightarrow> Inl ex
      | Inr found \<Rightarrow>
          Inr ([ascii ''--headless=new'', ascii ''--no-sandbox'',
                ascii ''--disable-dev-shm-usage'', ascii ''--disable-gpu'',
                ascii ''--window-size=1920,1080'', ascii ''--log-level=3'']
               @ (if found then
                    (case profile_path of
                       None \<Rightarrow> []
                     | Some p \<Rightarrow> [ascii ''--user-data-dir='' @ p])
                  else [])))"

definition chrome_scrape ::
  "env \<Rightarrow> pystr \<Rightarrow> pystr option \<Rightarrow> bool \<Rightarrow> globals \<Rightarrow> outcome \<times> globals" where
  "chrome_scrape e url profile_path beautify g =
     (let (available, g') = ensure_selenium_dependencies e g in
      if \<not> available then ((None, None), g')
      else
        (case chrome_options e profile_path of
           Inl ex \<Rightarrow> ((None, None), g')
         | Inr options \<Rightarrow>
             (case service_args (g_webdriver_manager g') (chromedriver_install e) of
                Inl ex \<Rightarrow> ((None, None), g')
              | Inr executable_path \<Rightarrow>
                  (case chrome_page e executable_path options url of
                     Inl ex \<Rightarrow> ((None, None), g')
                   | Inr content_html \<Rightarrow>
                       ((Some (if beautify then clean_html e content_html else content_html),
                         Some (ascii ''chrome'')), g')))))"

section \<open>The orchestrator\<close>

text \<open>
  One entry of \<open>scrape_attempts\<close>: the name and the function the loop calls. The call
  may raise, which the loop catches, so an attempt returns a sum.
\<close>

type_synonym attempt = "globals \<Rightarrow> (exn + outcome) \<times> globals"

definition scrape_attempts ::
  "env \<Rightarrow> pystr \<Rightarrow> bool \<Rightarrow> pystr option \<Rightarrow> pystr option \<Rightarrow> pystr option
    \<Rightarrow> (pystr \<times> attempt) list" where
  "scrape_attempts e url beautify playwright_profile firefox_profile chrome_profile =
     [(ascii ''fast'', \<lambda>g. (Inr (fast_scrape e url beautify), g)),
      (ascii ''playwright'',
         \<lambda>g. case playwright_scrape e url playwright_profile beautify g of
                (out, g') \<Rightarrow> (Inr out, g')),
      (ascii ''firefox'',
         \<lambda>g. case firefox_scrape e url firefox_profile beautify g of
                (out, g') \<Rightarrow> (Inr out, g')),
      (ascii ''chrome'',
         \<lambda>g. case chrome_scrape e url chrome_profile beautify g of
                (out, g') \<Rightarrow> (Inr out, g'))]"

text \<open>
  The loop over the attempts. Besides the result and the globals it returns the names
  it logged with \<open>Trying method\<close>, one for each call of a scraping function, in order.
\<close>

fun attempt_loop ::
  "(pystr \<times> attempt) list \<Rightarrow> result \<Rightarrow> globals \<Rightarrow> pystr list
    \<Rightarrow> result \<times> globals \<times> pystr list" where
  "attempt_loop [] res g tried =
     (res\<lparr>r_error := Some (ascii ''All scraping methods failed'')\<rparr>, g, tried)"
| "attempt_loop ((method_name, scrape_func) # rest) res g tried =
     (case scrape_func g of
        (Inr (Some content, method_used), g') \<Rightarrow>
          (res\<lparr>r_content := Some content, r_method := method_used\<rparr>, g',
           tried @ [method_name])
      | (Inr (None, method_used), g') \<Rightarrow> attempt_loop rest res g' (tried @ [method_name])
      | (Inl ex, g') \<Rightarrow> attempt_loop rest res g' (tried @ [method_name]))"

definition valid_url :: "pystr \<Rightarrow> bool" where
  "valid_url url =
     (url \<noteq> [] \<and> (startswith url (ascii ''http://'') \<or> startswith url (ascii ''https://'')))"

definition scrape_url_orchestrator ::
  "env \<Rightarrow> pystr \<Rightarrow> bool \<Rightarrow> pystr option \<Rightarrow> pystr option \<Rightarrow> pystr option \<Rightarrow> globals
    \<Rightarrow> result \<times> globals \<times> pystr list" where
  "scrape_url_orchestrator e url beautify playwright_profile firefox_profile chrome_profile g =
     (if \<not> valid_url url then
        (\<lparr>r_url = url, r_content = None, r_method = None, r_beautified = beautify,
          r_error = Some (ascii ''Invalid URL schema'')\<rparr>, g, [])
      else
        attempt_loop
          (scrape_attempts e url beautify playwright_profile firefox_profile chrome_profile)
          \<lparr>r_url = url, r_content = None, r_method = None, r_beautified = beautify,
           r_error = None\<rparr> g [])"

section \<open>The command line program\<close>

datatype output_format = Txt | Json

record args =
  a_url :: pystr
  a_output_file :: "pystr option"
  a_output_format :: output_format
  a_raw :: bool
  a_playwright_profile :: "pystr option"
  a_firefox_profile :: "pystr option"
  a_chrome_profile :: "pystr option"

text \<open>
  What a run of \<open>main\<close> leaves behind: the arguments of its \<open>print\<close> calls in order
  (the lines of the logger are not part of the model), the file it wrote, and the exit
  status.
\<close>

record run =
  printed :: "pystr list"
  written :: "(pystr \<times> pystr) option"
  exit_status :: nat

definition or_else :: "pystr option \<Rightarrow> pystr \<Rightarrow> pystr" where
  "or_else v d = (case v of None \<Rightarrow> d | Some s \<Rightarrow> if s = [] then d else s)"

definition output_content :: "env \<Rightarrow> args \<Rightarrow> result \<Rightarrow> pystr" where
  "output_content e a res =
     (case a_output_format a of
        Json \<Rightarrow> json_dumps e res
      | Txt \<Rightarrow>
          (case r_content res of
             Some c \<Rightarrow>
               if c \<noteq> [] then c
               else
                 ascii ''Error: Failed to scrape URL: '' @ a_url a
                 @ [NL] @ ascii ''Method attempted last: ''
                 @ or_else (r_method res) (ascii ''N/A'')
                 @ [NL] @ ascii ''Error details: ''
                 @ (case r_error res of None \<Rightarrow> ascii ''Unknown error'' | Some err \<Rightarrow> err)
           | None \<Rightarrow>
               ascii ''Error: Failed to scrape URL: '' @ a_url a
               @ [NL] @ ascii ''Method attempted last: ''
               @ or_else (r_method res) (ascii ''N/A'')
               @ [NL] @ ascii ''Error details: ''
               @ (case r_error res of None \<Rightarrow> ascii ''Unknown error'' | Some err \<Rightarrow> err)))"

definition max_console_len :: nat where
  "max_console_len = 10000"

text \<open>The branch of \<open>main\<close> that prints to the console when no output file is given.\<close>

definition print_console :: "pystr \<Rightarrow> pystr list" where
  "print_console out =
     [[NL] @ ascii ''--- Output ---'']
     @ (if length out > max_console_len then
          [take max_console_len out,
           [NL] @ ascii ''... [Output truncated for console display, full content length: ''
           @ str_of_nat (length out) @ ascii '' characters]'']
        else [out])
     @ [ascii ''--- End Output ---'']"

text \<open>
  \<open>main\<close> in three steps: the \<open>beautify\<close> flag it derives from the arguments, the
  result of the orchestrator it calls, and the text it renders from the result.
\<close>

definition main_beautify :: "env \<Rightarrow> args \<Rightarrow> bool" where
  "main_beautify e a =
     (if a_raw a then False
      else case bs4 e of None \<Rightarrow> False | Some parser \<Rightarrow> True)"

definition main_result :: "env \<Rightarrow> args \<Rightarrow> globals \<Rightarrow> result" where
  "main_result e a g =
     fst (scrape_url_orchestrator e (a_url a) (main_beautify e a) (a_playwright_profile a)
            (a_firefox_profile a) (a_chrome_profile a) g)"

definition main_output :: "env \<Rightarrow> args \<Rightarrow> globals \<Rightarrow> pystr" where
  "main_output e a g = output_content e a (main_result e a g)"

definition main :: "env \<Rightarrow> args \<Rightarrow> globals \<Rightarrow> run" where
  "main e a g =
     (let res = main_result e a g;
          out = main_output e a g;
          status = (case r_content res of None \<Rightarrow> 1 | Some c \<Rightarrow> 0)
      in if truthy (a_output_file a) then
           (case write_file e (or_else (a_output_file a) []) out of
              Inr u \<Rightarrow> \<lparr>printed = [], written = Some (or_else (a_output_file a) [], out),
                        exit_status = status\<rparr>
            | Inl ex \<Rightarrow>
                \<lparr>printed =
                   [[NL] @ ascii ''--- Output (Error writing to file, fallback to Console) ---'',
                    out, ascii ''--- End Output ---''],
                 written = None, exit_status = status\<rparr>)
         else \<lparr>printed = print_console out, written = None, exit_status = status\<rparr>)"

section \<open>Notions used in the statements\<close>

text \<open>
  \<open>all_fail attempts g\<close> runs the attempts in order from the globals \<open>g\<close> and is
  \<open>Some\<close> of the final globals when every one of them failed: it returned no content
  or raised.
\<close>

fun all_fail :: "(pystr \<times> attempt) list \<Rightarrow> globals \<Rightarrow> globals option" where
  "all_fail [] g = Some g"
| "all_fail ((method_name, scrape_func) # rest) g =
     (case scrape_func g of
        (Inr (Some content, method_used), g') \<Rightarrow> None
      | (Inr (None, method_used), g') \<Rightarrow> all_fail rest g'
      | (Inl ex, g') \<Rightarrow> all_fail rest g')"

text \<open>The invariant of the result dictionary.\<close>

definition co_presence :: "result \<Rightarrow> bool" where
  "co_presence res =
     ((r_content res \<noteq> None) = (r_method res \<noteq> None)
      \<and> (r_method res \<noteq> None) = (r_error res = None))"

text \<open>
  Every attempt names its method whenever it returns content. The four methods of the
  script do.
\<close>

definition names_method :: "(pystr \<times> attempt) list \<Rightarrow> bool" where
  "names_method atts =
     (\<forall>(n, f) \<in> set atts. \<forall>g c m g'. f g = (Inr (Some c, m), g') \<longrightarrow> m \<noteq> None)"

text \<open>The names of the methods in the order of the cascade.\<close>

definition method_names :: "pystr list" where
  "method_names = [ascii ''fast'', ascii ''playwright'', ascii ''firefox'', ascii ''chrome'']"

text \<open>
  \<open>s.split('\n')\<close> and the number of lines that are empty or hold only whitespace.
\<close>

fun split_lines :: "pystr \<Rightarrow> pystr list" where
  "split_lines [] = [[]]"
| "split_lines (c # cs) =
     (if c = NL then [] # split_lines cs
      else case split_lines cs of [] \<Rightarrow> [[c]] | l # ls \<Rightarrow> (c # l) # ls)"

definition blank_lines :: "pystr \<Rightarrow> nat" where
  "blank_lines s = length (filter (list_all isspace) (split_lines s))"

text \<open>
  The nodes of a document that lie in no noise element, in document order: what the
  specification's removal of the noise nodes leaves to be read. \<open>spec_kept\<close>
  lists them below one node of the parsed tree, \<open>spec_kept_soup\<close> in the whole
  document.
\<close>

fun spec_kept :: "node \<Rightarrow> node list" where
  "spec_kept (Tag name attrs cs) =
     concat (map (\<lambda>c. if tag_named tags_to_remove c then [] else c # spec_kept c) cs)"
| "spec_kept (NavigableString s) = []"
| "spec_kept (Comment s) = []"

definition spec_kept_soup :: "soup \<Rightarrow> node list" where
  "spec_kept_soup sp =
     concat (map (\<lambda>c. if tag_named tags_to_remove c then [] else c # spec_kept c) sp)"

section \<open>Example environments and documents\<close>

text \<open>
  An environment in which every library is missing and every request fails, and the
  globals as the top of the module binds them (all three \<open>None\<close>), which is what
  \<open>main\<close> finds when no optional library is installed or when it is called from
  an importing module. The import hints in the last lines of the script, which bind the
  names to the modules when the libraries are installed, are not part of the model.
\<close>

definition failing_env :: env where
  "failing_env =
     \<lparr>bs4 = None,
      httpx_get = (\<lambda>u. Inl (Exception (ascii ''ConnectError''))),
      cloudscraper_get = (\<lambda>u. Inl (Exception (ascii ''ConnectError''))),
      import_playwright = False,
      playwright_page = (\<lambda>u. Inl (Exception (ascii ''TimeoutError''))),
      import_selenium = False,
      import_webdriver_manager = False,
      gecko_install = Inl (Exception (ascii ''ValueError'')),
      chromedriver_install = Inl (Exception (ascii ''ValueError'')),
      firefox_page = (\<lambda>p opts u. Inl (Exception (ascii ''WebDriverException''))),
      chrome_page = (\<lambda>p opts u. Inl (Exception (ascii ''WebDriverException''))),
      path_exists = (\<lambda>p. Inr False),
      json_dumps = (\<lambda>r. []),
      write_file = (\<lambda>p t. Inr ())\<rparr>"

definition initial_globals :: globals where
  "initial_globals =
     \<lparr>g_playwright = Unchecked, g_selenium = Unchecked,
      g_webdriver_manager = ManagersUnchecked\<rparr>"

text \<open>
  The document of the specification's scenario, the tree a parser builds from it, and an
  environment in which only Playwright is installed and returns that document.
\<close>

definition hello_markup :: pystr where
  "hello_markup = ascii ''<html><body><main>Hello</main></body></html>''"

definition hello_soup :: soup where
  "hello_soup =
     [Tag (ascii ''html'') []
        [Tag (ascii ''body'') [] [Tag (ascii ''main'') [] [NavigableString (ascii ''Hello'')]]]]"

definition hello_env :: env where
  "hello_env =
     failing_env
       \<lparr>bs4 := Some (\<lambda>h. if h = hello_markup then Inr hello_soup
                         else Inl (Exception (ascii ''ParserRejectedMarkup''))),
        import_playwright := True,
        playwright_page := (\<lambda>u. Inr hello_markup)\<rparr>"



text \<open>An environment whose first request returns a page of 10001 characters, and the
  arguments of a run that prints the raw page to the console.\<close>

definition long_page_env :: env where
  "long_page_env = failing_env\<lparr>httpx_get := (\<lambda>u. Inr (replicate 10001 97))\<rparr>"

definition example_args :: args where
  "example_args =
     \<lparr>a_url = ascii ''https://example.com'', a_output_file = None, a_output_format = Txt,
      a_raw = True, a_playwright_profile = None, a_firefox_profile = None,
      a_chrome_profile = None\<rparr>"

text \<open>
  Two environments that differ in who receives an empty page: in the first the httpx
  request succeeds with an empty body, in the second Playwright returns an empty document.
\<close>

definition empty_page_env :: env where
  "empty_page_env = failing_env\<lparr>httpx_get := (\<lambda>u. Inr [])\<rparr>"

definition empty_playwright_env :: env where
  "empty_playwright_env =
     failing_env\<lparr>import_playwright := True, playwright_page := (\<lambda>u. Inr [])\<rparr>"

text \<open>
  A document with a navigation bar, an article, and a main element that holds a script.
\<close>

definition priority_soup :: soup where
  "priority_soup =
     [Tag (ascii ''html'') []
        [Tag (ascii ''body'') []
           [Tag (ascii ''nav'') [] [NavigableString (ascii ''Menu'')],
            Tag (ascii ''article'') [] [NavigableString (ascii ''Side'')],
            Tag (ascii ''main'') []
              [NavigableString (ascii ''Hello''),
               Tag (ascii ''script'') [] [NavigableString (ascii ''x()'')]]]]]"

text \<open>
  The markup of that document; a page with an advertisement, an article and a footer but
  no main element; and an environment whose parser knows both.
\<close>

definition priority_markup :: pystr where
  "priority_markup =
     ascii ''<html><body><nav>Menu</nav><article>Side</article><main>Hello<script>x()</script></main></body></html>''"

definition story_markup :: pystr where
  "story_markup =
     ascii ''<html><body><p>Ad</p><article>Story</article><footer>Foot</footer></body></html>''"

definition story_soup :: soup where
  "story_soup =
     [Tag (ascii ''html'') []
        [Tag (ascii ''body'') []
           [Tag (ascii ''p'') [] [NavigableString (ascii ''Ad'')],
            Tag (ascii ''article'') [] [NavigableString (ascii ''Story'')],
            Tag (ascii ''footer'') [] [NavigableString (ascii ''Foot'')]]]]"

definition pages_env :: env where
  "pages_env =
     failing_env
       \<lparr>bs4 := Some (\<lambda>h. if h = priority_markup then Inr priority_soup
                         else if h = story_markup then Inr story_soup
                         else Inl (Exception (ascii ''ParserRejectedMarkup'')))\<rparr>"

text \<open>
  A document whose main element holds escaped markup as text, and the document a parser
  builds when the unescaped text is parsed again. Both \<open>lxml\<close> and
  \<open>html.parser\<close> read the two strings this way (the second without the
  \<open>html\<close> and \<open>body\<close> wrappers, which changes no text).
\<close>

definition escaped_markup :: pystr where
  "escaped_markup = ascii ''<html><body><main>&lt;b&gt;bold&lt;/b&gt;</main></body></html>''"

definition escaped_soup :: soup where
  "escaped_soup =
     [Tag (ascii ''html'') []
        [Tag (ascii ''body'') []
           [Tag (ascii ''main'') [] [NavigableString (ascii ''<b>bold</b>'')]]]]"

definition bold_soup :: soup where
  "bold_soup =
     [Tag (ascii ''html'') []
        [Tag (ascii ''body'') [] [Tag (ascii ''b'') [] [NavigableString (ascii ''bold'')]]]]"

definition escaped_env :: env where
  "escaped_env =
     failing_env
       \<lparr>bs4 := Some (\<lambda>h. if h = escaped_markup then Inr escaped_soup
                         else if h = ascii ''<b>bold</b>'' then Inr bold_soup
                         else Inl (Exception (ascii ''ParserRejectedMarkup'')))\<rparr>"

text \<open>
  The document a parser builds from the plain text \<open>Hello\<close>, and an environment
  whose parser knows the scenario's markup and that text.
\<close>

definition plain_soup :: soup where
  "plain_soup =
     [Tag (ascii ''html'') []
        [Tag (ascii ''body'') [] [Tag (ascii ''p'') [] [NavigableString (ascii ''Hello'')]]]]"

definition reread_env :: env where
  "reread_env =
     failing_env
       \<lparr>bs4 := Some (\<lambda>h. if h = hello_markup then Inr hello_soup
                         else if h = ascii ''Hello'' then Inr plain_soup
                         else Inl (Exception (ascii ''ParserRejectedMarkup'')))\<rparr>"

text \<open>
  Two paragraphs with two blank lines between them, where the blank lines are a text
  node of their own; and one paragraph with two blank lines inside its text.
\<close>

definition gap_markup :: pystr where
  "gap_markup = ascii ''<html><body><p>a</p>'' @ [NL, NL, NL] @ ascii ''<p>b</p></body></html>''"

definition gap_soup :: soup where
  "gap_soup =
     [Tag (ascii ''html'') []
        [Tag (ascii ''body'') []
           [Tag (ascii ''p'') [] [NavigableString (ascii ''a'')],
            NavigableString [NL, NL, NL],
            Tag (ascii ''p'') [] [NavigableString (ascii ''b'')]]]]"

definition gap_env :: env where
  "gap_env =
     failing_env
       \<lparr>bs4 := Some (\<lambda>h. if h = gap_markup then Inr gap_soup
                         else Inl (Exception (ascii ''ParserRejectedMarkup'')))\<rparr>"

definition inner_markup :: pystr where
  "inner_markup = ascii ''<html><body><p>a'' @ [NL, NL, NL] @ ascii ''b</p></body></html>''"

definition inner_soup :: soup where
  "inner_soup =
     [Tag (ascii ''html'') []
        [Tag (ascii ''body'') []
           [Tag (ascii ''p'') [] [NavigableString (ascii ''a'' @ [NL, NL, NL] @ ascii ''b'')]]]]"

definition inner_env :: env where
  "inner_env =
     failing_env
       \<lparr>bs4 := Some (\<lambda>h. if h = inner_markup then Inr inner_soup
                         else Inl (Exception (ascii ''ParserRejectedMarkup'')))\<rparr>"

section \<open>Properties of the orchestrator\<close>

lemma attempt_loop_all_fail:
  "all_fail atts g = Some g1 \<Longrightarrow>
   attempt_loop atts res g tried =
     (res\<lparr>r_error := Some (ascii ''All scraping methods failed'')\<rparr>, g1,
      tried @ map fst atts)"
proof (induction atts arbitrary: g tried)
  case Nil
  then show ?case by simp
next
  case (Cons a atts)
  obtain n f where a: "a = (n, f)" by (cases a)
  obtain r g' where fg: "f g = (r, g')" by (cases "f g")
  show ?case
  proof (cases r)
    case (Inl ex)
    with Cons a fg show ?thesis by simp
  next
    case (Inr out)
    obtain c m where out: "out = (c, m)" by (cases out)
    show ?thesis
    proof (cases c)
      case None
      with Cons a fg Inr out show ?thesis by simp
    next
      case (Some x)
      with Cons.prems a fg Inr out show ?thesis by simp
    qed
  qed
qed

lemma attempt_loop_first_success:
  "all_fail pre g = Some g1 \<Longrightarrow> f g1 = (Inr (Some c, m), g2) \<Longrightarrow>
   attempt_loop (pre @ (n, f) # post) res g tried =
     (res\<lparr>r_content := Some c, r_method := m\<rparr>, g2, tried @ map fst pre @ [n])"
proof (induction pre arbitrary: g tried)
  case Nil
  then show ?case by simp
next
  case (Cons a pre)
  obtain n' f' where a: "a = (n', f')" by (cases a)
  obtain r g' where fg: "f' g = (r, g')" by (cases "f' g")
  show ?case
  proof (cases r)
    case (Inl ex)
    with Cons a fg show ?thesis by simp
  next
    case (Inr out)
    obtain c' m' where out: "out = (c', m')" by (cases out)
    show ?thesis
    proof (cases c')
      case None
      with Cons a fg Inr out show ?thesis by simp
    next
      case (Some x)
      with Cons.prems a fg Inr out show ?thesis by simp
    qed
  qed
qed

lemma attempt_loop_co_presence:
  "names_method atts \<Longrightarrow> r_content res = None \<Longrightarrow> r_method res = None \<Longrightarrow>
   r_error res = None \<Longrightarrow> co_presence (fst (attempt_loop atts res g tried))"
proof (induction atts arbitrary: g tried)
  case Nil
  then show ?case by (simp add: co_presence_def)
next
  case (Cons a atts)
  obtain n f where a: "a = (n, f)" by (cases a)
  obtain r g' where fg: "f g = (r, g')" by (cases "f g")
  from Cons.prems(1) have nm: "names_method atts" by (simp add: names_method_def)
  show ?case
  proof (cases r)
    case (Inl ex)
    with Cons nm a fg show ?thesis by simp
  next
    case (Inr out)
    obtain c m where out: "out = (c, m)" by (cases out)
    show ?thesis
    proof (cases c)
      case None
      with Cons nm a fg Inr out show ?thesis by simp
    next
      case (Some x)
      with Cons.prems(1) a fg Inr out have "m \<noteq> None"
        unfolding names_method_def by fastforce
      with Cons.prems a fg Inr out Some show ?thesis by (simp add: co_presence_def)
    qed
  qed
qed

lemma fast_scrape_method: "fast_scrape e url b = (Some c, m) \<Longrightarrow> m \<noteq> None"
  by (auto simp: fast_scrape_def Let_def split: sum.splits option.splits if_splits)

lemma playwright_scrape_method:
  "playwright_scrape e url p b g = ((Some c, m), g') \<Longrightarrow> m \<noteq> None"
  by (auto simp: playwright_scrape_def playwright_try_def
      split: sum.splits lazy_import.splits if_splits)

lemma firefox_scrape_method:
  "firefox_scrape e url p b g = ((Some c, m), g') \<Longrightarrow> m \<noteq> None"
  by (auto simp: firefox_scrape_def Let_def split: sum.splits prod.splits if_splits)

lemma chrome_scrape_method:
  "chrome_scrape e url p b g = ((Some c, m), g') \<Longrightarrow> m \<noteq> None"
  by (auto simp: chrome_scrape_def Let_def split: sum.splits prod.splits if_splits)

lemma scrape_attempts_names_method: "names_method (scrape_attempts e url b pp fp cp)"
  unfolding names_method_def scrape_attempts_def
  by (auto split: prod.splits
      dest: fast_scrape_method playwright_scrape_method firefox_scrape_method
        chrome_scrape_method)

lemma scrape_attempts_names: "map fst (scrape_attempts e url b pp fp cp) = method_names"
  by (simp add: scrape_attempts_def method_names_def)

lemma startswith_prefix: "startswith s p = prefix p s"
proof
  assume "startswith s p"
  then have "take (length p) s = p" by (simp add: startswith_def)
  then show "prefix p s" by (metis take_is_prefix)
next
  assume "prefix p s"
  then obtain zs where "s = p @ zs" by (auto simp: prefix_def)
  then show "startswith s p" by (simp add: startswith_def)
qed

text \<open>
  C1. Whatever the URL, the options, the libraries and the network do, the result of
  the orchestrator has content exactly when it has a method name, and a method name
  exactly when it has no error: on success, on an invalid URL and when every method
  failed.
\<close>

theorem orchestrator_co_presence:
  "co_presence (fst (scrape_url_orchestrator e url beautify pp fp cp g))"
  unfolding scrape_url_orchestrator_def
  by (simp add: attempt_loop_co_presence scrape_attempts_names_method)
    (simp add: co_presence_def)

theorem orchestrator_co_presence_witness:
  "co_presence (fst (scrape_url_orchestrator failing_env (ascii ''https://example.com'') True
     None None None initial_globals))
   \<and> r_error (fst (scrape_url_orchestrator failing_env (ascii ''https://example.com'') True
     None None None initial_globals)) = Some (ascii ''All scraping methods failed'')"
  using orchestrator_co_presence [of failing_env "ascii ''https://example.com''" True None None None initial_globals]
  by (simp add: scrape_url_orchestrator_def valid_url_def startswith_def ascii_def
      scrape_attempts_def fast_scrape_def playwright_scrape_def playwright_try_def profile_found_def firefox_scrape_def
      chrome_scrape_def ensure_selenium_dependencies_def failing_env_def initial_globals_def)

text \<open>
  C2. When the method at position \<open>i\<close> of the fixed order fast, playwright, firefox,
  chrome is the first to return content (every method before it failed), the orchestrator
  returns that content and method name at once: the methods it called are exactly the
  first \<open>i + 1\<close> of the order, and no later method is among them.
\<close>

theorem first_success_short_circuit:
  assumes "valid_url url"
    and "i < length (scrape_attempts e url beautify pp fp cp)"
    and "all_fail (take i (scrape_attempts e url beautify pp fp cp)) g = Some g1"
    and "snd (scrape_attempts e url beautify pp fp cp ! i) g1 = (Inr (Some c, m), g2)"
  shows "scrape_url_orchestrator e url beautify pp fp cp g =
           (\<lparr>r_url = url, r_content = Some c, r_method = m, r_beautified = beautify,
             r_error = None\<rparr>, g2, take (Suc i) method_names)
         \<and> set (drop (Suc i) method_names) \<inter> set (take (Suc i) method_names) = {}"
proof -
  let ?atts = "scrape_attempts e url beautify pp fp cp"
  obtain n f where nf: "?atts ! i = (n, f)" by (cases "?atts ! i")
  from assms(2) have split: "?atts = take i ?atts @ (n, f) # drop (Suc i) ?atts"
    using nf by (metis id_take_nth_drop)
  from assms(4) nf have f: "f g1 = (Inr (Some c, m), g2)" by simp
  have names: "map fst (take i ?atts) @ [n] = take (Suc i) method_names"
  proof -
    have "take (Suc i) (map fst ?atts) = map fst (take i ?atts) @ [n]"
      using assms(2) nf by (simp add: take_Suc_conv_app_nth take_map)
    then show ?thesis by (simp add: scrape_attempts_names)
  qed
  have "attempt_loop ?atts \<lparr>r_url = url, r_content = None, r_method = None,
          r_beautified = beautify, r_error = None\<rparr> g [] =
        (\<lparr>r_url = url, r_content = Some c, r_method = m, r_beautified = beautify,
          r_error = None\<rparr>, g2, [] @ map fst (take i ?atts) @ [n])"
    using attempt_loop_first_success [of "take i ?atts" g g1 f c m g2 n "drop (Suc i) ?atts"
        "\<lparr>r_url = url, r_content = None, r_method = None,
          r_beautified = beautify, r_error = None\<rparr>" "[]", OF assms(3) f] split
    by simp
  with assms(1) names have run: "scrape_url_orchestrator e url beautify pp fp cp g =
           (\<lparr>r_url = url, r_content = Some c, r_method = m, r_beautified = beautify,
             r_error = None\<rparr>, g2, take (Suc i) method_names)"
    by (simp add: scrape_url_orchestrator_def)
  have "distinct method_names" by (simp add: method_names_def ascii_def)
  then have "set (drop (Suc i) method_names) \<inter> set (take (Suc i) method_names) = {}"
    by (metis append_take_drop_id distinct_append inf_commute)
  with run show ?thesis by simp
qed

lemma hello_text: "text_content hello_soup = ascii ''Hello''"
  by (simp add: text_content_def decompose_all_def tags_to_remove_def find_main_content_def
      soup_find_def soup_descendants_def get_text_def strip_def
      isspace_def ascii_def hello_soup_def)

lemma hello_clean: "clean_html hello_env hello_markup = ascii ''Hello''"
proof -
  have "hello_markup \<noteq> []" by (simp add: hello_markup_def ascii_def)
  moreover have "cleaned_text (ascii ''Hello'') = ascii ''Hello''"
    by (simp add: cleaned_text_def strip_def isspace_def ascii_def NL_def)
  ultimately show ?thesis
    by (simp add: clean_html_def hello_env_def failing_env_def hello_text)
qed

theorem first_success_short_circuit_witness:
  "scrape_url_orchestrator hello_env (ascii ''https://example.com'') True None None None
     initial_globals =
     (\<lparr>r_url = ascii ''https://example.com'', r_content = Some (ascii ''Hello''),
       r_method = Some (ascii ''playwright''), r_beautified = True, r_error = None\<rparr>,
      initial_globals\<lparr>g_playwright := Loaded\<rparr>, [ascii ''fast'', ascii ''playwright''])"
proof -
  let ?url = "ascii ''https://example.com''"
  let ?atts = "scrape_attempts hello_env ?url True None None None"
  have v: "valid_url ?url" by (simp add: valid_url_def startswith_def ascii_def)
  have i: "1 < length ?atts" by (simp add: scrape_attempts_def)
  have pre: "all_fail (take 1 ?atts) initial_globals = Some initial_globals"
    by (simp add: scrape_attempts_def fast_scrape_def hello_env_def failing_env_def)
  have f: "snd (?atts ! 1) initial_globals =
      (Inr (Some (ascii ''Hello''), Some (ascii ''playwright'')),
       initial_globals\<lparr>g_playwright := Loaded\<rparr>)"
    using hello_clean
    by (simp add: scrape_attempts_def playwright_scrape_def playwright_try_def profile_found_def hello_env_def failing_env_def
        initial_globals_def)
  from first_success_short_circuit [OF v i pre f] show ?thesis
    by (simp add: method_names_def)
qed

text \<open>
  C3. When every method of the cascade fails (returns no content or raises), the result
  has the error \<open>All scraping methods failed\<close>, no content and no method, after all
  four methods were called.
\<close>

theorem all_methods_failed:
  assumes "valid_url url"
    and "all_fail (scrape_attempts e url beautify pp fp cp) g = Some g1"
  shows "scrape_url_orchestrator e url beautify pp fp cp g =
           (\<lparr>r_url = url, r_content = None, r_method = None, r_beautified = beautify,
             r_error = Some (ascii ''All scraping methods failed'')\<rparr>, g1, method_names)"
  using assms
  by (simp add: scrape_url_orchestrator_def attempt_loop_all_fail scrape_attempts_names)

theorem all_methods_failed_witness:
  "scrape_url_orchestrator failing_env (ascii ''https://example.com'') True None None None
     initial_globals =
     (\<lparr>r_url = ascii ''https://example.com'', r_content = None, r_method = None,
       r_beautified = True, r_error = Some (ascii ''All scraping methods failed'')\<rparr>,
      initial_globals\<lparr>g_playwright := Failed, g_selenium := Failed,
        g_webdriver_manager := ManagersFailed\<rparr>,
      [ascii ''fast'', ascii ''playwright'', ascii ''firefox'', ascii ''chrome''])"
proof -
  let ?url = "ascii ''https://example.com''"
  have v: "valid_url ?url" by (simp add: valid_url_def startswith_def ascii_def)
  have a: "all_fail (scrape_attempts failing_env ?url True None None None) initial_globals =
      Some (initial_globals\<lparr>g_playwright := Failed, g_selenium := Failed,
        g_webdriver_manager := ManagersFailed\<rparr>)"
    by (simp add: scrape_attempts_def fast_scrape_def playwright_scrape_def playwright_try_def profile_found_def
        firefox_scrape_def chrome_scrape_def ensure_selenium_dependencies_def
        failing_env_def initial_globals_def)
  from all_methods_failed [OF v a] show ?thesis by (simp add: method_names_def)
qed

text \<open>
  C4. A URL that starts neither with \<open>http://\<close> nor with \<open>https://\<close>, the empty
  string included, gives the error \<open>Invalid URL schema\<close> with no content; no method is
  called and the globals are untouched.
\<close>

theorem invalid_url_short_circuit:
  assumes "\<not> prefix (ascii ''http://'') url" and "\<not> prefix (ascii ''https://'') url"
  shows "scrape_url_orchestrator e url beautify pp fp cp g =
           (\<lparr>r_url = url, r_content = None, r_method = None, r_beautified = beautify,
             r_error = Some (ascii ''Invalid URL schema'')\<rparr>, g, [])"
  using assms by (simp add: scrape_url_orchestrator_def valid_url_def startswith_prefix)

theorem invalid_url_short_circuit_witness:
  "scrape_url_orchestrator hello_env (ascii ''ftp://example.com'') True None None None
     initial_globals =
     (\<lparr>r_url = ascii ''ftp://example.com'', r_content = None, r_method = None,
       r_beautified = True, r_error = Some (ascii ''Invalid URL schema'')\<rparr>,
      initial_globals, [])
   \<and> scrape_url_orchestrator hello_env (ascii ''not-a-url'') True None None None
     initial_globals =
     (\<lparr>r_url = ascii ''not-a-url'', r_content = None, r_method = None,
       r_beautified = True, r_error = Some (ascii ''Invalid URL schema'')\<rparr>,
      initial_globals, [])
   \<and> scrape_url_orchestrator hello_env [] True None None None initial_globals =
     (\<lparr>r_url = [], r_content = None, r_method = None,
       r_beautified = True, r_error = Some (ascii ''Invalid URL schema'')\<rparr>,
      initial_globals, [])"
proof -
  have 1: "\<not> prefix (ascii ''http://'') (ascii ''ftp://example.com'')"
    and 2: "\<not> prefix (ascii ''https://'') (ascii ''ftp://example.com'')"
    and 3: "\<not> prefix (ascii ''http://'') (ascii ''not-a-url'')"
    and 4: "\<not> prefix (ascii ''https://'') (ascii ''not-a-url'')"
    and 5: "\<not> prefix (ascii ''http://'') []"
    and 6: "\<not> prefix (ascii ''https://'') []"
    by (simp_all add: ascii_def)
  from invalid_url_short_circuit [OF 1 2] invalid_url_short_circuit [OF 3 4]
    invalid_url_short_circuit [OF 5 6]
  show ?thesis by simp
qed

section \<open>Properties of the browser methods\<close>








section \<open>Properties of the command line program\<close>

text \<open>
  C10. Without an output file, a rendered output of more than 10000 characters is printed
  as its first 10000 characters followed by the truncation notice with the full length,
  between the two marker lines; the full text is not printed.
\<close>

theorem console_output_truncated:
  assumes "\<not> truthy (a_output_file a)"
    and "max_console_len < length (main_output e a g)"
  shows "printed (main e a g) =
           [[NL] @ ascii ''--- Output ---'',
            take 10000 (main_output e a g),
            [NL] @ ascii ''... [Output truncated for console display, full content length: ''
            @ str_of_nat (length (main_output e a g)) @ ascii '' characters]'',
            ascii ''--- End Output ---'']
         \<and> length (take 10000 (main_output e a g)) = 10000"
  using assms by (simp add: main_def Let_def print_console_def max_console_len_def)

lemma long_page_output: "main_output long_page_env example_args initial_globals = replicate 10001 97"
  by (simp add: main_output_def main_result_def main_beautify_def output_content_def
      scrape_url_orchestrator_def valid_url_def startswith_def scrape_attempts_def
      fast_scrape_def long_page_env_def failing_env_def example_args_def ascii_def)

theorem console_output_truncated_witness:
  "printed (main long_page_env example_args initial_globals) =
     [[NL] @ ascii ''--- Output ---'',
      replicate 10000 97,
      [NL] @ ascii ''... [Output truncated for console display, full content length: 10001 characters]'',
      ascii ''--- End Output ---'']"
proof -
  have f: "\<not> truthy (a_output_file example_args)" by (simp add: example_args_def)
  have l: "max_console_len < length (main_output long_page_env example_args initial_globals)"
    by (simp add: long_page_output max_console_len_def)
  have d: "str_of_nat 10001 = ascii ''10001''"
    by (simp add: str_of_nat.simps ascii_def)
  from console_output_truncated [OF f l] show ?thesis
    by (simp add: long_page_output d ascii_def)
qed

text \<open>
  C5. The claim fails for the fast method, which tests the truth value of the response
  text: an empty body from httpx makes \<open>fast_scrape\<close> return no content, the
  orchestrator goes on through all four methods, which fail in this environment, and the
  exit status is 1. The same empty page from Playwright is accepted as content, with exit
  status 0.
\<close>

theorem empty_fast_response_is_failure:
  "fast_scrape empty_page_env (ascii ''https://example.com'') False = (None, None)
   \<and> snd (snd (scrape_url_orchestrator empty_page_env (ascii ''https://example.com'') False
        None None None initial_globals)) = method_names
   \<and> main_result empty_page_env example_args initial_globals =
       \<lparr>r_url = ascii ''https://example.com'', r_content = None, r_method = None,
        r_beautified = False, r_error = Some (ascii ''All scraping methods failed'')\<rparr>
   \<and> exit_status (main empty_page_env example_args initial_globals) = 1
   \<and> main_result empty_playwright_env example_args initial_globals =
       \<lparr>r_url = ascii ''https://example.com'', r_content = Some [],
        r_method = Some (ascii ''playwright''), r_beautified = False, r_error = None\<rparr>
   \<and> exit_status (main empty_playwright_env example_args initial_globals) = 0"
proof -
  have 1: "fast_scrape empty_page_env (ascii ''https://example.com'') False = (None, None)"
    by (simp add: fast_scrape_def empty_page_env_def failing_env_def)
  have 2: "main_result empty_page_env example_args initial_globals =
       \<lparr>r_url = ascii ''https://example.com'', r_content = None, r_method = None,
        r_beautified = False, r_error = Some (ascii ''All scraping methods failed'')\<rparr>"
    by (simp add: main_result_def main_beautify_def scrape_url_orchestrator_def valid_url_def
        startswith_def scrape_attempts_def fast_scrape_def playwright_scrape_def playwright_try_def profile_found_def
        firefox_scrape_def chrome_scrape_def ensure_selenium_dependencies_def
        empty_page_env_def failing_env_def example_args_def initial_globals_def ascii_def)
  have 3: "main_result empty_playwright_env example_args initial_globals =
       \<lparr>r_url = ascii ''https://example.com'', r_content = Some [],
        r_method = Some (ascii ''playwright''), r_beautified = False, r_error = None\<rparr>"
    by (simp add: main_result_def main_beautify_def scrape_url_orchestrator_def valid_url_def
        startswith_def scrape_attempts_def fast_scrape_def playwright_scrape_def playwright_try_def profile_found_def
        empty_playwright_env_def failing_env_def example_args_def initial_globals_def ascii_def)
  have 4: "a_output_file example_args = None" by (simp add: example_args_def)
  have 5: "snd (snd (scrape_url_orchestrator empty_page_env (ascii ''https://example.com'')
        False None None None initial_globals)) = method_names"
    by (simp add: scrape_url_orchestrator_def valid_url_def startswith_def
        scrape_attempts_def fast_scrape_def playwright_scrape_def playwright_try_def profile_found_def firefox_scrape_def
        chrome_scrape_def ensure_selenium_dependencies_def empty_page_env_def
        failing_env_def initial_globals_def method_names_def ascii_def)
  show ?thesis
    by (simp add: 1 2 3 4 5 main_def Let_def)
qed

section \<open>Properties of the document cleaning\<close>

lemma tag_named_decompose_in [simp]:
  "tag_named ns (decompose_in names c) = tag_named ns c"
  by (cases c) simp_all

lemma descendants_decompose_in:
  "n \<in> set (descendants (decompose_in names t)) \<Longrightarrow> \<not> tag_named names n"
proof (induction t arbitrary: n)
  case (Tag name attrs cs)
  from Tag.prems obtain c where c: "c \<in> set cs" "\<not> tag_named names c"
    and n: "n = decompose_in names c \<or> n \<in> set (descendants (decompose_in names c))"
    by auto
  from n show ?case
  proof
    assume "n = decompose_in names c"
    with c show ?thesis by simp
  next
    assume "n \<in> set (descendants (decompose_in names c))"
    with Tag.IH c(1) show ?thesis by blast
  qed
qed simp_all

lemma decompose_all_no_noise:
  "n \<in> set (soup_descendants (decompose_all names sp)) \<Longrightarrow> \<not> tag_named names n"
proof -
  assume "n \<in> set (soup_descendants (decompose_all names sp))"
  then obtain c where c: "c \<in> set sp" "\<not> tag_named names c"
    and n: "n = decompose_in names c \<or> n \<in> set (descendants (decompose_in names c))"
    by (auto simp: soup_descendants_def decompose_all_def)
  from n show ?thesis
  proof
    assume "n = decompose_in names c"
    with c show ?thesis by simp
  next
    assume "n \<in> set (descendants (decompose_in names c))"
    then show ?thesis by (rule descendants_decompose_in)
  qed
qed

lemma div_role_main_decompose_in [simp]:
  "div_role_main (decompose_in names c) = div_role_main c"
  by (cases c) simp_all

lemma node_string_decompose_in [simp]:
  "node_string (decompose_in names c) = node_string c"
  by (cases c) simp_all

lemma concat_map_filter_if:
  "concat (map (\<lambda>c. if P c then [] else f c) cs) = concat (map f (filter (\<lambda>c. \<not> P c) cs))"
  by (induction cs) auto

lemma descendants_decompose_in_kept:
  "descendants (decompose_in tags_to_remove t) = map (decompose_in tags_to_remove) (spec_kept t)"
proof (induction t)
  case (Tag name attrs cs)
  have "descendants (decompose_in tags_to_remove (Tag name attrs cs)) =
      concat (map (\<lambda>c. decompose_in tags_to_remove c
                        # descendants (decompose_in tags_to_remove c))
                (filter (\<lambda>c. \<not> tag_named tags_to_remove c) cs))"
    by (simp add: comp_def)
  also have "\<dots> = concat (map (\<lambda>c. map (decompose_in tags_to_remove) (c # spec_kept c))
                (filter (\<lambda>c. \<not> tag_named tags_to_remove c) cs))"
    using Tag.IH by (intro arg_cong [where f = concat] map_cong) auto
  also have "\<dots> = map (decompose_in tags_to_remove)
      (concat (map (\<lambda>c. c # spec_kept c) (filter (\<lambda>c. \<not> tag_named tags_to_remove c) cs)))"
    by (simp add: map_concat comp_def)
  finally show ?case by (simp add: concat_map_filter_if)
qed simp_all

lemma soup_descendants_decompose_all_kept:
  "soup_descendants (decompose_all tags_to_remove sp) =
     map (decompose_in tags_to_remove) (spec_kept_soup sp)"
proof -
  have "soup_descendants (decompose_all tags_to_remove sp) =
      concat (map (\<lambda>c. map (decompose_in tags_to_remove) (c # spec_kept c))
                (filter (\<lambda>c. \<not> tag_named tags_to_remove c) sp))"
    by (simp add: soup_descendants_def decompose_all_def comp_def
        descendants_decompose_in_kept)
  also have "\<dots> = map (decompose_in tags_to_remove)
      (concat (map (\<lambda>c. c # spec_kept c) (filter (\<lambda>c. \<not> tag_named tags_to_remove c) sp)))"
    by (simp add: map_concat comp_def)
  finally show ?thesis by (simp add: spec_kept_soup_def concat_map_filter_if)
qed

lemma get_text_decompose_in:
  "get_text (map (decompose_in names) ds) = get_text ds"
proof -
  have "List.map_filter node_string (map (decompose_in names) ds) = List.map_filter node_string ds"
    by (induction ds) (simp_all add: List.map_filter_simps split: option.splits)
  then show ?thesis by (simp add: get_text_def)
qed

lemma find_decompose_in:
  assumes "\<And>n. P (decompose_in names n) = P n"
  shows "List.find P (map (decompose_in names) ds) = map_option (decompose_in names) (List.find P ds)"
  using assms by (induction ds) simp_all

text \<open>The text of a document, read off the original tree.\<close>

lemma text_content_kept:
  "text_content sp =
     get_text
       (case List.find (tag_named [ascii ''main'']) (spec_kept_soup sp) of
          Some m \<Rightarrow> spec_kept m
        | None \<Rightarrow>
            (case List.find (tag_named [ascii ''article'']) (spec_kept_soup sp) of
               Some a \<Rightarrow> spec_kept a
             | None \<Rightarrow>
                 (case List.find div_role_main (spec_kept_soup sp) of
                    Some d \<Rightarrow> spec_kept d
                  | None \<Rightarrow>
                      (case List.find (tag_named [ascii ''body'']) (spec_kept_soup sp) of
                         Some b \<Rightarrow> spec_kept b
                       | None \<Rightarrow> spec_kept_soup sp))))"
  by (simp add: text_content_def find_main_content_def soup_find_def
      soup_find_div_role_main_def soup_descendants_decompose_all_kept find_decompose_in
      descendants_decompose_in_kept get_text_decompose_in
      split: option.splits)

lemma kept_text_word:
  "get_text (spec_kept (Tag (ascii ''main'') []
      [NavigableString (ascii ''Hello''),
       Tag (ascii ''script'') [] [NavigableString (ascii ''x()'')]])) = ascii ''Hello''"
  "get_text (spec_kept (Tag (ascii ''article'') [] [NavigableString (ascii ''Story'')]))
     = ascii ''Story''"
  "cleaned_text (ascii ''Story'') = ascii ''Story''"
  "cleaned_text (ascii ''Hello'') = ascii ''Hello''"
  by (simp_all add: get_text_def tags_to_remove_def strip_def cleaned_text_def isspace_def
      ascii_def NL_def)

text \<open>
  C8. For every document the parser returns: the removal leaves exactly the nodes that
  lie in no noise element, in their order, and no element with a noise name among them;
  the names the specification lists are noise names. The output is the cleaned text of
  the kept nodes below the first \<open>main\<close> element if there is one, else below the
  first \<open>article\<close>, else below the first \<open>div\<close> with \<open>role="main"\<close>,
  else below the first \<open>body\<close>, else of all kept nodes. When the parser reads the
  specification's markup as the tree \<open>html\<close>, \<open>body\<close>, \<open>main\<close>,
  \<open>Hello\<close>, cleaning it gives exactly \<open>Hello\<close>.
\<close>

theorem clean_html_noise_and_root:
  assumes "bs4 e = Some parser" and "html_content \<noteq> []" and "parser html_content = Inr sp"
  shows
    "soup_descendants (decompose_all tags_to_remove sp)
       = map (decompose_in tags_to_remove) (spec_kept_soup sp)
     \<and> (\<forall>n \<in> set (soup_descendants (decompose_all tags_to_remove sp)).
           \<not> tag_named tags_to_remove n)
     \<and> set (map ascii [''script'', ''style'', ''nav'', ''footer'', ''form'', ''button'',
          ''input'', ''textarea'', ''select'', ''option'', ''link'', ''meta''])
          \<subseteq> set tags_to_remove
     \<and> (\<forall>m. List.find (tag_named [ascii ''main'']) (spec_kept_soup sp) = Some m \<longrightarrow>
           clean_html e html_content = cleaned_text (get_text (spec_kept m)))
     \<and> (List.find (tag_named [ascii ''main'']) (spec_kept_soup sp) = None \<longrightarrow>
          (\<forall>a. List.find (tag_named [ascii ''article'']) (spec_kept_soup sp) = Some a \<longrightarrow>
             clean_html e html_content = cleaned_text (get_text (spec_kept a))))
     \<and> (List.find (tag_named [ascii ''main'']) (spec_kept_soup sp) = None
          \<and> List.find (tag_named [ascii ''article'']) (spec_kept_soup sp) = None \<longrightarrow>
          (\<forall>d. List.find div_role_main (spec_kept_soup sp) = Some d \<longrightarrow>
             clean_html e html_content = cleaned_text (get_text (spec_kept d))))
     \<and> (List.find (tag_named [ascii ''main'']) (spec_kept_soup sp) = None
          \<and> List.find (tag_named [ascii ''article'']) (spec_kept_soup sp) = None
          \<and> List.find div_role_main (spec_kept_soup sp) = None \<longrightarrow>
          (\<forall>b. List.find (tag_named [ascii ''body'']) (spec_kept_soup sp) = Some b \<longrightarrow>
             clean_html e html_content = cleaned_text (get_text (spec_kept b))))
     \<and> (List.find (tag_named [ascii ''main'']) (spec_kept_soup sp) = None
          \<and> List.find (tag_named [ascii ''article'']) (spec_kept_soup sp) = None
          \<and> List.find div_role_main (spec_kept_soup sp) = None
          \<and> List.find (tag_named [ascii ''body'']) (spec_kept_soup sp) = None \<longrightarrow>
          clean_html e html_content = cleaned_text (get_text (spec_kept_soup sp)))
     \<and> (sp = hello_soup \<longrightarrow> clean_html e html_content = ascii ''Hello'')"
proof -
  let ?V = "spec_kept_soup sp"
  have c: "clean_html e html_content = cleaned_text (text_content sp)"
    using assms by (simp add: clean_html_def)
  have kept: "soup_descendants (decompose_all tags_to_remove sp)
       = map (decompose_in tags_to_remove) ?V"
    by (rule soup_descendants_decompose_all_kept)
  have noise: "\<forall>n \<in> set (soup_descendants (decompose_all tags_to_remove sp)).
      \<not> tag_named tags_to_remove n"
    using decompose_all_no_noise by blast
  have listed: "set (map ascii [''script'', ''style'', ''nav'', ''footer'', ''form'', ''button'',
        ''input'', ''textarea'', ''select'', ''option'', ''link'', ''meta''])
      \<subseteq> set tags_to_remove"
    by (simp add: tags_to_remove_def)
  have p1: "\<forall>m. List.find (tag_named [ascii ''main'']) ?V = Some m \<longrightarrow>
      clean_html e html_content = cleaned_text (get_text (spec_kept m))"
    by (simp add: c text_content_kept)
  have p2: "List.find (tag_named [ascii ''main'']) ?V = None \<longrightarrow>
      (\<forall>a. List.find (tag_named [ascii ''article'']) ?V = Some a \<longrightarrow>
         clean_html e html_content = cleaned_text (get_text (spec_kept a)))"
    by (simp add: c text_content_kept)
  have p3: "List.find (tag_named [ascii ''main'']) ?V = None
      \<and> List.find (tag_named [ascii ''article'']) ?V = None \<longrightarrow>
      (\<forall>d. List.find div_role_main ?V = Some d \<longrightarrow>
         clean_html e html_content = cleaned_text (get_text (spec_kept d)))"
    by (simp add: c text_content_kept)
  have p4: "List.find (tag_named [ascii ''main'']) ?V = None
      \<and> List.find (tag_named [ascii ''article'']) ?V = None
      \<and> List.find div_role_main ?V = None \<longrightarrow>
      (\<forall>b. List.find (tag_named [ascii ''body'']) ?V = Some b \<longrightarrow>
         clean_html e html_content = cleaned_text (get_text (spec_kept b)))"
    by (simp add: c text_content_kept)
  have p5: "List.find (tag_named [ascii ''main'']) ?V = None
      \<and> List.find (tag_named [ascii ''article'']) ?V = None
      \<and> List.find div_role_main ?V = None
      \<and> List.find (tag_named [ascii ''body'']) ?V = None \<longrightarrow>
      clean_html e html_content = cleaned_text (get_text ?V)"
    by (simp add: c text_content_kept)
  have "cleaned_text (ascii ''Hello'') = ascii ''Hello''"
    by (simp add: cleaned_text_def strip_def isspace_def ascii_def NL_def)
  then have hello: "sp = hello_soup \<longrightarrow> clean_html e html_content = ascii ''Hello''"
    by (simp add: c hello_text)
  show ?thesis
    by (intro conjI) (rule kept noise listed p1 p2 p3 p4 p5 hello)+
qed

theorem clean_html_noise_and_root_witness:
  "clean_html pages_env priority_markup = ascii ''Hello''
   \<and> clean_html pages_env story_markup = ascii ''Story''
   \<and> clean_html hello_env hello_markup = ascii ''Hello''"
proof -
  let ?parser = "\<lambda>h. if h = priority_markup then Inr priority_soup
                    else if h = story_markup then Inr story_soup
                    else Inl (Exception (ascii ''ParserRejectedMarkup''))"
  let ?hello = "\<lambda>h. if h = hello_markup then Inr hello_soup
                   else Inl (Exception (ascii ''ParserRejectedMarkup''))"
  have e: "bs4 pages_env = Some ?parser" by (simp add: pages_env_def failing_env_def)
  have ne: "priority_markup \<noteq> []" "story_markup \<noteq> []" "story_markup \<noteq> priority_markup"
    "hello_markup \<noteq> []"
    by (simp_all add: priority_markup_def story_markup_def hello_markup_def ascii_def)
  have pp: "?parser priority_markup = Inr priority_soup" by simp
  have ps: "?parser story_markup = Inr story_soup" using ne by simp
  have m: "List.find (tag_named [ascii ''main'']) (spec_kept_soup priority_soup) =
      Some (Tag (ascii ''main'') []
        [NavigableString (ascii ''Hello''),
         Tag (ascii ''script'') [] [NavigableString (ascii ''x()'')]])"
    by (simp add: spec_kept_soup_def priority_soup_def tags_to_remove_def ascii_def)
  have nm: "List.find (tag_named [ascii ''main'']) (spec_kept_soup story_soup) = None"
    by (simp add: spec_kept_soup_def story_soup_def tags_to_remove_def ascii_def)
  have a: "List.find (tag_named [ascii ''article'']) (spec_kept_soup story_soup) =
      Some (Tag (ascii ''article'') [] [NavigableString (ascii ''Story'')])"
    by (simp add: spec_kept_soup_def story_soup_def tags_to_remove_def ascii_def)
  have eh: "bs4 hello_env = Some ?hello" by (simp add: hello_env_def failing_env_def)
  have ph: "?hello hello_markup = Inr hello_soup" by simp
  have "clean_html pages_env priority_markup =
      cleaned_text (get_text (spec_kept (Tag (ascii ''main'') []
        [NavigableString (ascii ''Hello''),
         Tag (ascii ''script'') [] [NavigableString (ascii ''x()'')]])))"
    by (rule clean_html_noise_and_root [OF e ne(1) pp, THEN conjunct2, THEN conjunct2,
          THEN conjunct2, THEN conjunct1, rule_format, OF m])
  then have 1: "clean_html pages_env priority_markup = ascii ''Hello''"
    by (simp only: kept_text_word)
  have "clean_html pages_env story_markup =
      cleaned_text (get_text (spec_kept (Tag (ascii ''article'') []
        [NavigableString (ascii ''Story'')])))"
    by (rule clean_html_noise_and_root [OF e ne(2) ps, THEN conjunct2, THEN conjunct2,
          THEN conjunct2, THEN conjunct2, THEN conjunct1, rule_format, OF nm a])
  then have 2: "clean_html pages_env story_markup = ascii ''Story''"
    by (simp only: kept_text_word)
  have 3: "clean_html hello_env hello_markup = ascii ''Hello''"
    by (rule clean_html_noise_and_root [OF eh ne(4) ph, THEN conjunct2, THEN conjunct2,
          THEN conjunct2, THEN conjunct2, THEN conjunct2, THEN conjunct2, THEN conjunct2,
          THEN conjunct2, rule_format, OF refl])
  from 1 2 3 show ?thesis by simp
qed

section \<open>Properties of the blank line substitution\<close>

lemma isspace_NL: "isspace NL"
  by (simp add: isspace_def NL_def)

lemma nonspace_not_NL: "\<not> isspace c \<Longrightarrow> c \<noteq> NL"
  using isspace_NL by auto

lemma backtrack_append:
  "k \<le> length cs \<Longrightarrow> x = [] \<or> hd x \<noteq> NL \<or> k < length cs \<Longrightarrow>
   backtrack (cs @ x) k = backtrack cs k"
proof (induction k)
  case 0
  show ?case
  proof (cases cs)
    case Nil
    with 0 show ?thesis by (cases x) auto
  next
    case (Cons c cs')
    then show ?thesis by simp
  qed
next
  case (Suc k)
  then have IH: "backtrack (cs @ x) k = backtrack cs k" by simp
  show ?case
  proof (cases "Suc k < length cs")
    case True
    then show ?thesis using IH by (simp add: nth_append)
  next
    case False
    with Suc.prems have eq: "Suc k = length cs" and x: "x = [] \<or> hd x \<noteq> NL" by auto
    then have "\<not> (Suc k < length (cs @ x) \<and> (cs @ x) ! Suc k = NL)"
      by (cases x) (auto simp: nth_append)
    with False IH show ?thesis by auto
  qed
qed

lemma backtrack_none:
  "(\<And>i. i \<le> k \<Longrightarrow> i < length cs \<Longrightarrow> cs ! i \<noteq> NL) \<Longrightarrow> backtrack cs k = None"
  by (induction k) auto

lemma backtrack_no_NL: "NL \<notin> set cs \<Longrightarrow> backtrack cs k = None"
  by (rule backtrack_none) (metis nth_mem)

lemma backtrack_here: "k < length cs \<Longrightarrow> cs ! k = NL \<Longrightarrow> backtrack cs k = Some k"
  by (cases k) auto

lemma backtrack_last_NL:
  "NL \<notin> set h \<Longrightarrow> backtrack (a @ NL # h) (length a + length h) = Some (length a)"
proof (induction h rule: rev_induct)
  case Nil
  then show ?case by (simp add: backtrack_here)
next
  case (snoc c h)
  then have c: "c \<noteq> NL" and IH: "backtrack (a @ NL # h) (length a + length h) = Some (length a)"
    by auto
  have "backtrack ((a @ NL # h) @ [c]) (length a + length h) =
      backtrack (a @ NL # h) (length a + length h)"
    by (rule backtrack_append) auto
  with IH c show ?case by (simp add: nth_append)
qed


lemma takeWhile_isspace_run:
  assumes "\<forall>c \<in> set w. isspace c" and "r = [] \<or> \<not> isspace (hd r)"
  shows "takeWhile isspace (w @ r) = w"
proof -
  from assms(2) have "takeWhile isspace r = []" by (cases r) auto
  with assms(1) show ?thesis by (simp add: takeWhile_append2)
qed

lemma match_blank_found:
  assumes "\<forall>c \<in> set a. isspace c" and "\<forall>c \<in> set h. isspace c" and "NL \<notin> set h"
    and "r = [] \<or> \<not> isspace (hd r)"
  shows "match_blank (NL # a @ NL # h @ r) = Some (length a + 2)"
proof -
  let ?w = "a @ NL # h"
  from assms(1,2) have "\<forall>c \<in> set ?w. isspace c" by (auto simp: isspace_NL)
  then have tw: "takeWhile isspace (?w @ r) = ?w"
    using assms(4) by (rule takeWhile_isspace_run)
  from assms(4) have r: "r = [] \<or> hd r \<noteq> NL \<or> length ?w < length ?w"
    using nonspace_not_NL by auto
  have "backtrack (?w @ r) (length ?w) = backtrack ?w (length ?w)"
    using r by (intro backtrack_append) simp_all
  also have "\<dots> = backtrack ?w (length a + length h)" by simp
  also have "\<dots> = Some (length a)" using assms(3) by (rule backtrack_last_NL)
  finally have "backtrack (?w @ r) (length ?w) = Some (length a)" .
  with tw show ?thesis by simp
qed

lemma match_blank_none:
  assumes "\<forall>c \<in> set h. isspace c" and "NL \<notin> set h" and "r = [] \<or> \<not> isspace (hd r)"
  shows "match_blank (NL # h @ r) = None"
proof -
  have tw: "takeWhile isspace (h @ r) = h"
    using assms(1,3) by (rule takeWhile_isspace_run)
  from assms(3) have r: "r = [] \<or> hd r \<noteq> NL \<or> length h < length h"
    using nonspace_not_NL by auto
  have "backtrack (h @ r) (length h) = backtrack h (length h)"
    using r by (intro backtrack_append) simp_all
  also have "\<dots> = None" using assms(2) by (rule backtrack_no_NL)
  finally show ?thesis using tw by simp
qed

lemma sub_blank_copy: "NL \<notin> set h \<Longrightarrow> sub_blank (h @ r) = h @ sub_blank r"
  by (induction h) auto

lemma sub_blank_found:
  assumes "\<forall>c \<in> set a. isspace c" and "\<forall>c \<in> set h. isspace c" and "NL \<notin> set h"
    and "r = [] \<or> \<not> isspace (hd r)"
  shows "sub_blank (NL # a @ NL # h @ r) = [NL, NL] @ h @ sub_blank r"
proof -
  have "sub_blank (NL # a @ NL # h @ r) =
      [NL, NL] @ sub_blank (drop (length a + 2) (NL # a @ NL # h @ r))"
    using match_blank_found [OF assms] by simp
  also have "drop (length a + 2) (NL # a @ NL # h @ r) = h @ r" by simp
  finally show ?thesis using assms(3) by (simp add: sub_blank_copy)
qed

lemma sub_blank_not_found:
  assumes "\<forall>c \<in> set h. isspace c" and "NL \<notin> set h" and "r = [] \<or> \<not> isspace (hd r)"
  shows "sub_blank (NL # h @ r) = NL # h @ sub_blank r"
  using match_blank_none [OF assms] assms(2) by (simp add: sub_blank_copy)

lemma sub_blank_head:
  "r = [] \<or> \<not> isspace (hd r) \<Longrightarrow> sub_blank r = [] \<or> \<not> isspace (hd (sub_blank r))"
  by (cases r) (auto dest: nonspace_not_NL)

text \<open>What follows a line feed: its run of whitespace and the rest.\<close>

lemma after_NL_cases:
  obtains (found) a h r where "cs = a @ NL # h @ r" "\<forall>c \<in> set a. isspace c"
      "\<forall>c \<in> set h. isspace c" "NL \<notin> set h" "r = [] \<or> \<not> isspace (hd r)"
  | (not_found) h r where "cs = h @ r" "\<forall>c \<in> set h. isspace c" "NL \<notin> set h"
      "r = [] \<or> \<not> isspace (hd r)"
proof -
  let ?w = "takeWhile isspace cs" and ?r = "dropWhile isspace cs"
  have cs: "cs = ?w @ ?r" by simp
  have w: "\<forall>c \<in> set ?w. isspace c" by (auto dest: set_takeWhileD)
  have r: "?r = [] \<or> \<not> isspace (hd ?r)" by (metis hd_dropWhile)
  show thesis
  proof (cases "NL \<in> set ?w")
    case True
    then obtain a h where ah: "?w = a @ NL # h" "NL \<notin> set h"
      by (meson split_list_last)
    with w have a: "\<forall>c \<in> set a. isspace c" and h: "\<forall>c \<in> set h. isspace c" by auto
    from cs ah have "cs = a @ NL # h @ ?r" by (metis append.assoc append_Cons)
    then show thesis using a h ah(2) r by (rule found)
  next
    case False
    with cs w show thesis using r by (rule not_found)
  qed
qed

lemma sub_blank_idem: "sub_blank (sub_blank s) = sub_blank s"
proof (induction s rule: length_induct)
  case (1 s)
  show ?case
  proof (cases s)
    case Nil
    then show ?thesis by simp
  next
    case (Cons c cs)
    show ?thesis
    proof (cases "c = NL")
      case False
      from 1 Cons have "sub_blank (sub_blank cs) = sub_blank cs" by simp
      with False Cons show ?thesis by simp
    next
      case True
      show ?thesis
      proof (cases rule: after_NL_cases [of cs])
        case (found a h r)
        from 1 Cons found(1) have IH: "sub_blank (sub_blank r) = sub_blank r" by simp
        have s: "sub_blank s = [NL, NL] @ h @ sub_blank r"
          using Cons True found sub_blank_found by simp
        have "sub_blank (NL # [] @ NL # h @ sub_blank r) = [NL, NL] @ h @ sub_blank (sub_blank r)"
          using found(3,4) sub_blank_head [OF found(5)] by (intro sub_blank_found) simp_all
        with s IH show ?thesis by simp
      next
        case (not_found h r)
        from 1 Cons not_found(1) have IH: "sub_blank (sub_blank r) = sub_blank r" by simp
        have s: "sub_blank s = NL # h @ sub_blank r"
          using Cons True not_found sub_blank_not_found by simp
        have "sub_blank (NL # h @ sub_blank r) = NL # h @ sub_blank (sub_blank r)"
          using not_found(2,3) sub_blank_head [OF not_found(4)]
          by (intro sub_blank_not_found) simp_all
        with s IH show ?thesis by simp
      qed
    qed
  qed
qed


text \<open>
  A boundary between \<open>p\<close> and \<open>x\<close> that no match can cross: \<open>x\<close> is empty or starts
  with a character that is no whitespace, or \<open>p\<close> is empty or ends with one.
\<close>

lemma match_blank_append:
  assumes "(x = [] \<or> \<not> isspace (hd x)) \<or> \<not> isspace (last p)" and "p \<noteq> []"
  shows "match_blank (p @ x) = match_blank p"
proof -
  from assms(2) obtain c cs where p: "p = c # cs" by (cases p) auto
  show ?thesis
  proof (cases "c = NL")
    case False
    with p show ?thesis by simp
  next
    case True
    have "takeWhile isspace (cs @ x) = takeWhile isspace cs
        \<and> backtrack (cs @ x) (length (takeWhile isspace cs))
            = backtrack cs (length (takeWhile isspace cs))"
    proof (cases "\<forall>c \<in> set cs. isspace c")
      case all: True
      with assms(1) p True have x: "x = [] \<or> \<not> isspace (hd x)"
        by (cases cs rule: rev_cases) (auto simp: isspace_NL)
      with all have tw: "takeWhile isspace (cs @ x) = cs" by (rule takeWhile_isspace_run)
      from all have tw': "takeWhile isspace cs = cs" by simp
      from x have "x = [] \<or> hd x \<noteq> NL \<or> length cs < length cs"
        using nonspace_not_NL by auto
      then have bt: "backtrack (cs @ x) (length cs) = backtrack cs (length cs)"
        by (intro backtrack_append) simp_all
      show ?thesis unfolding tw tw' using bt by simp
    next
      case False
      then obtain d where d: "d \<in> set cs" "\<not> isspace d" by auto
      then have tw: "takeWhile isspace (cs @ x) = takeWhile isspace cs"
        by (rule takeWhile_append1)
      from d have "length (takeWhile isspace cs) < length cs"
        by (metis length_takeWhile_le le_neq_implies_less takeWhile_eq_all_conv length_append
            takeWhile_dropWhile_id add.right_neutral length_0_conv dropWhile_eq_Nil_conv
            add_diff_cancel_left')
      then have "backtrack (cs @ x) (length (takeWhile isspace cs))
          = backtrack cs (length (takeWhile isspace cs))"
        by (intro backtrack_append) simp_all
      with tw show ?thesis by simp
    qed
    with p True show ?thesis by simp
  qed
qed

lemma sub_blank_append:
  "(x = [] \<or> \<not> isspace (hd x)) \<or> p = [] \<or> \<not> isspace (last p) \<Longrightarrow>
   sub_blank (p @ x) = sub_blank p @ sub_blank x"
proof (induction p rule: length_induct)
  case (1 p)
  show ?case
  proof (cases p)
    case Nil
    then show ?thesis by simp
  next
    case (Cons c cs)
    with "1.prems" have b: "(x = [] \<or> \<not> isspace (hd x)) \<or> \<not> isspace (last p)" by auto
    have m: "match_blank (p @ x) = match_blank p"
      using b Cons by (intro match_blank_append) simp_all
    show ?thesis
    proof (cases "match_blank p")
      case None
      from "1.prems" Cons have "(x = [] \<or> \<not> isspace (hd x)) \<or> cs = [] \<or> \<not> isspace (last cs)"
        by (auto split: if_splits)
      with 1 Cons have "sub_blank (cs @ x) = sub_blank cs @ sub_blank x" by simp
      with None m Cons show ?thesis by simp
    next
      case (Some n)
      then have n: "2 \<le> n" "n \<le> length p" using match_blank_bound by blast+
      from "1.prems" have "(x = [] \<or> \<not> isspace (hd x)) \<or> drop n p = []
          \<or> \<not> isspace (last (drop n p))"
        by (cases "drop n p = []") (auto simp: last_drop)
      moreover from n Cons have "length (drop n p) < length p" by simp
      ultimately have "sub_blank (drop n p @ x) = sub_blank (drop n p) @ sub_blank x"
        using 1 by blast
      moreover from n have "drop n (p @ x) = drop n p @ x" by simp
      ultimately show ?thesis using Some m Cons by simp
    qed
  qed
qed


lemma sub_blank_isspace: "\<forall>c \<in> set s. isspace c \<Longrightarrow> \<forall>c \<in> set (sub_blank s). isspace c"
proof (induction s rule: sub_blank.induct)
  case 1
  then show ?case by simp
next
  case (2 c cs)
  show ?case
  proof (cases "match_blank (c # cs)")
    case None
    with 2 show ?thesis by simp
  next
    case (Some n)
    from "2.prems" have "\<forall>c \<in> set (drop n (c # cs)). isspace c"
      by (meson in_set_dropD)
    with 2 Some show ?thesis by (simp add: isspace_NL)
  qed
qed

lemma sub_blank_last:
  assumes "m \<noteq> []" and "\<not> isspace (last m)"
  shows "sub_blank m \<noteq> [] \<and> last (sub_blank m) = last m"
proof -
  have "sub_blank (butlast m @ [last m]) = sub_blank (butlast m) @ sub_blank [last m]"
    using assms(2) by (intro sub_blank_append) simp
  moreover have "sub_blank [last m] = [last m]"
    using assms(2) by (auto dest: nonspace_not_NL)
  ultimately show ?thesis using assms(1) by simp
qed

lemma strip_sandwich:
  assumes "\<forall>c \<in> set a. isspace c" and "\<forall>c \<in> set b. isspace c"
    and "m = [] \<or> (\<not> isspace (hd m) \<and> \<not> isspace (last m))"
  shows "strip (a @ m @ b) = m"
proof (cases "m = []")
  case True
  from assms(1,2) have "\<forall>c \<in> set (a @ b). isspace c" by auto
  then have d: "dropWhile isspace (a @ b) = []" by (simp only: dropWhile_eq_Nil_conv)
  show ?thesis unfolding strip_def True append_Nil d by simp
next
  case False
  with assms(3) have hd: "\<not> isspace (hd m)" and last: "\<not> isspace (last m)" by auto
  from assms(1) have "dropWhile isspace (a @ m @ b) = dropWhile isspace (m @ b)"
    by (simp add: dropWhile_append2)
  also from False hd have "\<dots> = m @ b" by (cases m) auto
  finally have 1: "dropWhile isspace (a @ m @ b) = m @ b" .
  from assms(2) have "dropWhile isspace (rev b @ rev m) = dropWhile isspace (rev m)"
    by (intro dropWhile_append2) simp
  also from False last have "\<dots> = rev m" by (cases m rule: rev_cases) auto
  finally show ?thesis using 1 by (simp add: strip_def)
qed

lemma strip_decomposition:
  obtains a m b where "t = a @ m @ b" "\<forall>c \<in> set a. isspace c" "\<forall>c \<in> set b. isspace c"
    "m = [] \<or> (\<not> isspace (hd m) \<and> \<not> isspace (last m))"
proof -
  let ?a = "takeWhile isspace t" and ?u = "dropWhile isspace t"
  let ?b = "rev (takeWhile isspace (rev ?u))" and ?m = "rev (dropWhile isspace (rev ?u))"
  have u: "?u = ?m @ ?b" by (metis rev_append rev_rev_ident takeWhile_dropWhile_id)
  then have t: "t = ?a @ ?m @ ?b" by (metis takeWhile_dropWhile_id)
  have a: "\<forall>c \<in> set ?a. isspace c" by (auto dest: set_takeWhileD)
  have b: "\<forall>c \<in> set ?b. isspace c" by (auto dest: set_takeWhileD)
  have m: "?m = [] \<or> (\<not> isspace (hd ?m) \<and> \<not> isspace (last ?m))"
  proof (cases "?m = []")
    case False
    then have "\<not> isspace (last ?m)" by (simp add: last_rev hd_dropWhile)
    moreover from False u have "hd ?m = hd ?u" by (metis hd_append2)
    moreover from False u have "?u \<noteq> []" by (metis Nil_is_append_conv)
    then have "\<not> isspace (hd ?u)" by (simp add: hd_dropWhile)
    ultimately show ?thesis by simp
  qed simp
  from t a b m show thesis by (rule that)
qed

lemma strip_sub_blank: "strip (sub_blank t) = sub_blank (strip t)"
proof -
  obtain a m b where t: "t = a @ m @ b" and a: "\<forall>c \<in> set a. isspace c"
    and b: "\<forall>c \<in> set b. isspace c"
    and m: "m = [] \<or> (\<not> isspace (hd m) \<and> \<not> isspace (last m))"
    by (rule strip_decomposition)
  have st: "strip t = m" unfolding t using a b m by (rule strip_sandwich)
  show ?thesis
  proof (cases "m = []")
    case True
    with t a b have "\<forall>c \<in> set t. isspace c" by auto
    then have "\<forall>c \<in> set (sub_blank t). isspace c" by (rule sub_blank_isspace)
    then have "strip (sub_blank t @ [] @ []) = []" by (intro strip_sandwich) simp_all
    with st True show ?thesis by simp
  next
    case False
    with m have hd: "\<not> isspace (hd m)" and last: "\<not> isspace (last m)" by auto
    have "hd (m @ b) = hd m" using False by simp
    with hd have "sub_blank (a @ m @ b) = sub_blank a @ sub_blank (m @ b)"
      by (intro sub_blank_append) simp
    also have "sub_blank (m @ b) = sub_blank m @ sub_blank b"
      using last by (intro sub_blank_append) simp
    finally have sb: "sub_blank t = sub_blank a @ sub_blank m @ sub_blank b" using t by simp
    from False hd last sub_blank_head [of m] sub_blank_last [of m]
    have "sub_blank m = [] \<or> (\<not> isspace (hd (sub_blank m)) \<and> \<not> isspace (last (sub_blank m)))"
      by auto
    with sub_blank_isspace [OF a] sub_blank_isspace [OF b]
    have "strip (sub_blank a @ sub_blank m @ sub_blank b) = sub_blank m"
      by (rule strip_sandwich)
    with sb st show ?thesis by simp
  qed
qed

lemma strip_idem: "strip (strip t) = strip t"
proof -
  obtain a m b where t: "t = a @ m @ b" and a: "\<forall>c \<in> set a. isspace c"
    and b: "\<forall>c \<in> set b. isspace c"
    and m: "m = [] \<or> (\<not> isspace (hd m) \<and> \<not> isspace (last m))"
    by (rule strip_decomposition)
  have "strip t = m" unfolding t using a b m by (rule strip_sandwich)
  moreover have "strip ([] @ m @ []) = m" using m by (intro strip_sandwich) simp_all
  ultimately show ?thesis by simp
qed

lemma cleaned_text_idem: "cleaned_text (cleaned_text t) = cleaned_text t"
proof -
  have "cleaned_text (cleaned_text t) = strip (sub_blank (strip (sub_blank t)))"
    by (simp add: cleaned_text_def)
  also have "\<dots> = strip (strip (sub_blank (sub_blank t)))"
    by (simp add: strip_sub_blank)
  also have "\<dots> = strip (sub_blank t)" by (simp add: sub_blank_idem strip_idem)
  finally show ?thesis by (simp add: cleaned_text_def)
qed

lemma cleaned_text_word:
  "cleaned_text (ascii ''Hello'') = ascii ''Hello''"
  "cleaned_text (ascii ''<b>bold</b>'') = ascii ''<b>bold</b>''"
  "cleaned_text (ascii ''bold'') = ascii ''bold''"
  by (simp_all add: cleaned_text_def strip_def isspace_def ascii_def NL_def)

lemma escaped_text: "text_content escaped_soup = ascii ''<b>bold</b>''"
  by (simp add: text_content_def decompose_all_def tags_to_remove_def find_main_content_def
      soup_find_def soup_descendants_def get_text_def strip_def
      isspace_def ascii_def escaped_soup_def)

lemma bold_text: "text_content bold_soup = ascii ''bold''"
  by (simp add: text_content_def decompose_all_def tags_to_remove_def find_main_content_def
      soup_find_def soup_find_div_role_main_def soup_descendants_def get_text_def strip_def
      isspace_def ascii_def bold_soup_def)

lemma plain_text: "text_content plain_soup = ascii ''Hello''"
  by (simp add: text_content_def decompose_all_def tags_to_remove_def find_main_content_def
      soup_find_def soup_find_div_role_main_def soup_descendants_def get_text_def strip_def
      isspace_def ascii_def plain_soup_def)

text \<open>
  C6, as stated, fails: cleaning parses its input as markup, so a cleaned text that
  itself contains markup is changed by a second cleaning. The escaped text
  \<open>&lt;b&gt;bold&lt;/b&gt;\<close> cleans to \<open><b>bold</b>\<close>, and that cleans to
  \<open>bold\<close>.
\<close>

theorem clean_html_not_idempotent:
  "clean_html escaped_env escaped_markup = ascii ''<b>bold</b>''
   \<and> clean_html escaped_env (clean_html escaped_env escaped_markup) = ascii ''bold''
   \<and> clean_html escaped_env (clean_html escaped_env escaped_markup)
       \<noteq> clean_html escaped_env escaped_markup"
proof -
  have ne: "escaped_markup \<noteq> []" "ascii ''<b>bold</b>'' \<noteq> []"
    "ascii ''<b>bold</b>'' \<noteq> escaped_markup" "ascii ''bold'' \<noteq> ascii ''<b>bold</b>''"
    by (simp_all add: escaped_markup_def ascii_def)
  have 1: "clean_html escaped_env escaped_markup = ascii ''<b>bold</b>''"
    using ne by (simp add: clean_html_def escaped_env_def failing_env_def escaped_text
        cleaned_text_word)
  have 2: "clean_html escaped_env (ascii ''<b>bold</b>'') = ascii ''bold''"
    using ne by (simp add: clean_html_def escaped_env_def failing_env_def bold_text
        cleaned_text_word)
  from 1 2 ne(4) show ?thesis by simp
qed

text \<open>
  C6, amended. Consolidating the blank lines and trimming is idempotent on every text,
  and \<open>clean_html\<close> is idempotent at \<open>x\<close> whenever the parser reads the
  cleaned text back as a document whose text is that same text (or rejects it).
\<close>

theorem clean_html_idempotent_when_reread:
  "cleaned_text (cleaned_text t) = cleaned_text t
   \<and> ((\<forall>parser sp. bs4 e = Some parser \<and> parser (clean_html e x) = Inr sp
          \<longrightarrow> text_content sp = clean_html e x)
        \<longrightarrow> clean_html e (clean_html e x) = clean_html e x)"
proof (intro conjI impI)
  show "cleaned_text (cleaned_text t) = cleaned_text t" by (rule cleaned_text_idem)
next
  let ?y = "clean_html e x"
  assume re: "\<forall>parser sp. bs4 e = Some parser \<and> parser ?y = Inr sp \<longrightarrow> text_content sp = ?y"
  show "clean_html e ?y = ?y"
  proof (cases "bs4 e")
    case None
    then show ?thesis by (simp add: clean_html_def)
  next
    case (Some parser)
    show ?thesis
    proof (cases "x = []")
      case True
      then show ?thesis by (simp add: clean_html_def)
    next
      case False
      show ?thesis
      proof (cases "parser x")
        case (Inl ex)
        with Some False have "?y = x" by (simp add: clean_html_def)
        then show ?thesis by simp
      next
        case (Inr sp)
        with Some False have y: "?y = cleaned_text (text_content sp)"
          by (simp add: clean_html_def)
        show ?thesis
        proof (cases "parser ?y")
          case Inl
          with Some show ?thesis by (simp add: clean_html_def [of e ?y])
        next
          case (Inr sp2)
          with re Some have "text_content sp2 = ?y" by blast
          then have "cleaned_text (text_content sp2) = ?y"
            using y cleaned_text_idem by simp
          with Some Inr show ?thesis by (simp add: clean_html_def [of e ?y])
        qed
      qed
    qed
  qed
qed

theorem clean_html_idempotent_when_reread_witness:
  "clean_html reread_env hello_markup = ascii ''Hello''
   \<and> clean_html reread_env (clean_html reread_env hello_markup)
       = clean_html reread_env hello_markup
   \<and> cleaned_text (cleaned_text ([32, NL, NL, 32, NL] @ ascii ''a'' @ [NL, 32, NL, NL, 32]
        @ ascii ''b'' @ [32, NL]))
       = ascii ''a'' @ [NL, NL, 32] @ ascii ''b''"
proof -
  let ?t = "[32, NL, NL, 32, NL] @ ascii ''a'' @ [NL, 32, NL, NL, 32] @ ascii ''b'' @ [32, NL]"
  have ne: "hello_markup \<noteq> []" "ascii ''Hello'' \<noteq> []" "ascii ''Hello'' \<noteq> hello_markup"
    by (simp_all add: hello_markup_def ascii_def)
  have 1: "clean_html reread_env hello_markup = ascii ''Hello''"
    using ne by (simp add: clean_html_def reread_env_def failing_env_def hello_text
        cleaned_text_word)
  have re: "\<forall>parser sp. bs4 reread_env = Some parser
      \<and> parser (clean_html reread_env hello_markup) = Inr sp
      \<longrightarrow> text_content sp = clean_html reread_env hello_markup"
    unfolding 1 using ne by (auto simp: reread_env_def failing_env_def plain_text)
  have c: "cleaned_text ?t = ascii ''a'' @ [NL, NL, 32] @ ascii ''b''"
    by (simp add: cleaned_text_def strip_def isspace_def ascii_def NL_def)
  from clean_html_idempotent_when_reread [of ?t reread_env hello_markup] re 1 c
  show ?thesis by simp
qed

lemma gap_text: "text_content gap_soup = ascii ''a'' @ NL # ascii ''b''"
  by (simp add: text_content_def decompose_all_def tags_to_remove_def find_main_content_def
      soup_find_def soup_find_div_role_main_def soup_descendants_def get_text_def strip_def
      isspace_def ascii_def gap_soup_def NL_def)

lemma inner_text: "text_content inner_soup = ascii ''a'' @ [NL, NL, NL] @ ascii ''b''"
  by (simp add: text_content_def decompose_all_def tags_to_remove_def find_main_content_def
      soup_find_def soup_find_div_role_main_def soup_descendants_def get_text_def strip_def
      isspace_def ascii_def inner_soup_def NL_def)

text \<open>
  C7, as stated, fails: \<open>get_text\<close> with \<open>strip=True\<close> drops a text node
  that holds only whitespace before the blank lines are consolidated. Two blank lines
  between two paragraphs leave no blank line in the output.
\<close>

theorem blank_lines_between_elements_vanish:
  "blank_lines gap_markup = 2
   \<and> clean_html gap_env gap_markup = ascii ''a'' @ NL # ascii ''b''
   \<and> blank_lines (clean_html gap_env gap_markup) = 0"
proof -
  have ne: "gap_markup \<noteq> []" by (simp add: gap_markup_def ascii_def)
  have c: "cleaned_text (ascii ''a'' @ NL # ascii ''b'') = ascii ''a'' @ NL # ascii ''b''"
    by (simp add: cleaned_text_def strip_def isspace_def ascii_def NL_def)
  have 1: "clean_html gap_env gap_markup = ascii ''a'' @ NL # ascii ''b''"
    using ne by (simp add: clean_html_def gap_env_def failing_env_def gap_text c)
  have 2: "blank_lines gap_markup = 2"
    by (simp add: blank_lines_def gap_markup_def ascii_def NL_def isspace_def)
  have 3: "blank_lines (ascii ''a'' @ NL # ascii ''b'') = 0"
    by (simp add: blank_lines_def ascii_def NL_def isspace_def)
  from 1 2 3 show ?thesis by simp
qed

text \<open>
  C7, amended. When the text taken from the parsed document holds, between two
  characters that are no whitespace, a run of whitespace with at least two line feeds
  (one or more blank lines), the output holds at that position exactly one blank line:
  the spaces before the first line feed of the run, two line feeds, and the spaces after
  its last line feed.
\<close>

theorem blank_lines_collapse_inside_text:
  assumes "bs4 e = Some parser" and "html_content \<noteq> []" and "parser html_content = Inr sp"
    and "text_content sp = p @ h1 @ NL # a @ NL # h2 @ q"
    and "p \<noteq> []" and "\<not> isspace (last p)" and "q \<noteq> []" and "\<not> isspace (hd q)"
    and "list_all isspace (h1 @ a @ h2)" and "NL \<notin> set h1" and "NL \<notin> set h2"
  shows "clean_html e html_content =
           dropWhile isspace (sub_blank p) @ h1 @ [NL, NL] @ h2
           @ rev (dropWhile isspace (rev (sub_blank q)))"
proof -
  from assms(9) have ws: "\<forall>c \<in> set a. isspace c" "\<forall>c \<in> set h2. isspace c"
    by (auto simp: list_all_iff)
  have "sub_blank (p @ (h1 @ NL # a @ NL # h2 @ q)) =
      sub_blank p @ sub_blank (h1 @ NL # a @ NL # h2 @ q)"
    using assms(6) by (intro sub_blank_append) simp
  also have "sub_blank (h1 @ NL # a @ NL # h2 @ q) = h1 @ sub_blank (NL # a @ NL # h2 @ q)"
    using assms(10) by (rule sub_blank_copy)
  also have "sub_blank (NL # a @ NL # h2 @ q) = [NL, NL] @ h2 @ sub_blank q"
    using ws assms(11,8) by (intro sub_blank_found) simp_all
  finally have sb: "sub_blank (text_content sp) =
      sub_blank p @ (h1 @ [NL, NL] @ h2) @ sub_blank q"
    using assms(4) by simp
  from assms(5,6) have pne: "sub_blank p \<noteq> []" and pl: "last (sub_blank p) = last p"
    using sub_blank_last [of p] by auto
  from pne have "last (sub_blank p) \<in> set (sub_blank p)" by (rule last_in_set)
  moreover from pl assms(6) have "\<not> isspace (last (sub_blank p))" by simp
  ultimately have A: "last (sub_blank p) \<in> set (sub_blank p)"
    "\<not> isspace (last (sub_blank p))" .
  from assms(7,8) have "sub_blank q \<noteq> []" "\<not> isspace (hd (sub_blank q))"
    using sub_blank_head [of q] by (cases q; auto dest: nonspace_not_NL)+
  then have B: "hd (sub_blank q) \<in> set (rev (sub_blank q))" "\<not> isspace (hd (sub_blank q))"
    by (simp_all del: sub_blank.simps)
  let ?M = "h1 @ [NL, NL] @ h2"
  have "dropWhile isspace (sub_blank p @ ?M @ sub_blank q) =
      dropWhile isspace (sub_blank p) @ ?M @ sub_blank q"
    using A by (rule dropWhile_append1)
  moreover have "dropWhile isspace (rev (sub_blank q) @ rev ?M @ rev (dropWhile isspace (sub_blank p)))
      = dropWhile isspace (rev (sub_blank q)) @ rev ?M @ rev (dropWhile isspace (sub_blank p))"
    using B by (rule dropWhile_append1)
  ultimately have "strip (sub_blank p @ ?M @ sub_blank q) =
      dropWhile isspace (sub_blank p) @ ?M @ rev (dropWhile isspace (rev (sub_blank q)))"
    by (simp add: strip_def)
  with sb have "cleaned_text (text_content sp) =
      dropWhile isspace (sub_blank p) @ ?M @ rev (dropWhile isspace (rev (sub_blank q)))"
    by (simp add: cleaned_text_def)
  with assms(1,2,3) show ?thesis by (simp add: clean_html_def)
qed

theorem blank_lines_collapse_inside_text_witness:
  "clean_html inner_env inner_markup = ascii ''a'' @ [NL, NL] @ ascii ''b''
   \<and> blank_lines inner_markup = 2
   \<and> blank_lines (clean_html inner_env inner_markup) = 1"
proof -
  let ?parser = "\<lambda>h. if h = inner_markup then Inr inner_soup
                    else Inl (Exception (ascii ''ParserRejectedMarkup''))"
  have e: "bs4 inner_env = Some ?parser" by (simp add: inner_env_def failing_env_def)
  have ne: "inner_markup \<noteq> []" by (simp add: inner_markup_def ascii_def)
  have p: "?parser inner_markup = Inr inner_soup" by simp
  have t: "text_content inner_soup = ascii ''a'' @ [] @ NL # [NL] @ NL # [] @ ascii ''b''"
    by (simp add: inner_text)
  have side: "ascii ''a'' \<noteq> []" "\<not> isspace (last (ascii ''a''))" "ascii ''b'' \<noteq> []"
    "\<not> isspace (hd (ascii ''b''))" "list_all isspace ([] @ [NL] @ [])" "NL \<notin> set []"
    by (simp_all add: ascii_def isspace_def NL_def)
  have s: "sub_blank (ascii ''a'') = ascii ''a''" "sub_blank (ascii ''b'') = ascii ''b''"
    by (simp_all add: ascii_def NL_def)
  have d: "dropWhile isspace (ascii ''a'') = ascii ''a''"
    "dropWhile isspace (rev (ascii ''b'')) = rev (ascii ''b'')"
    by (simp_all add: ascii_def isspace_def)
  have 1: "clean_html inner_env inner_markup = ascii ''a'' @ [NL, NL] @ ascii ''b''"
    using blank_lines_collapse_inside_text [OF e ne p t side(1-5) side(6) side(6)]
    by (simp add: s d)
  have 2: "blank_lines inner_markup = 2"
    by (simp add: blank_lines_def inner_markup_def ascii_def NL_def isspace_def)
  have 3: "blank_lines (ascii ''a'' @ [NL, NL] @ ascii ''b'') = 1"
    by (simp add: blank_lines_def ascii_def NL_def isspace_def)
  from 1 2 3 show ?thesis by simp
qed

end
